theory Spec2Isabelle
  imports Complex_Main "HOL-Library.Word"
begin

section \<open>JavaScript strings\<close>

text \<open>
  A JavaScript string is a sequence of 16-bit code units. The regular expressions of
  \<^verbatim>\<open>normalize.js\<close> carry no \<^verbatim>\<open>u\<close> flag, so they work on code units, not on
  code points. ASCII literals of the source are written with \<open>js\<close>.
\<close>

type_synonym jschar = "16 word"
type_synonym jsstring = "jschar list"

definition js :: "string \<Rightarrow> jsstring" where
  "js s = map of_char s"

text \<open>\<^verbatim>\<open>String.prototype.includes\<close> / an unanchored literal regular expression.\<close>

fun js_includes :: "jsstring \<Rightarrow> jsstring \<Rightarrow> bool" where
  "js_includes [] p = (p = [])"
| "js_includes (c # cs) p = (take (length p) (c # cs) = p \<or> js_includes cs p)"

text \<open>Decimal digits of a natural number, as \<^verbatim>\<open>String(i)\<close> prints an index.\<close>

fun dec :: "nat \<Rightarrow> jsstring" where
  "dec n = (if n < 10 then [of_nat (48 + n)] else dec (n div 10) @ [of_nat (48 + n mod 10)])"

declare dec.simps [simp del]

definition is_digit :: "jschar \<Rightarrow> bool" where
  "is_digit c \<longleftrightarrow> 0x30 \<le> c \<and> c \<le> 0x39"

section \<open>JavaScript values and errors\<close>

text \<open>
  The values that \<^verbatim>\<open>Response.json()\<close> produces, and \<^verbatim>\<open>undefined\<close>. A number is
  given by the text that \<^verbatim>\<open>ToString\<close> prints for it (\<^verbatim>\<open>0\<close>, \<^verbatim>\<open>-1.5\<close>, \<^verbatim>\<open>1e+21\<close>,
  \<^verbatim>\<open>NaN\<close>), which determines the number. An object is the list of its own properties, in
  order, each name once.
\<close>

datatype json =
    JUndefined
  | JNull
  | JBool bool
  | JNum jsstring
  | JStr jsstring
  | JArr "json list"
  | JObj "(jsstring \<times> json) list"

text \<open>
  \<open>BaseError\<close> is the error class of the package \<^verbatim>\<open>@maykoncapellari/cli-builder\<close>,
  built from a message and an optional cause. The other errors are raised by the
  JavaScript runtime, the network and the file system.
\<close>

datatype js_error =
    BaseError jsstring error_cause
  | TypeError
  | URIError
  | SyntaxError
  | SystemError jsstring
and error_cause =
    NoCause
  | CausedBy js_error
  | CausedByValue json

text \<open>Truthiness (\<^verbatim>\<open>ToBoolean\<close>).\<close>

fun truthy :: "json \<Rightarrow> bool" where
  "truthy JUndefined = False"
| "truthy JNull = False"
| "truthy (JBool b) = b"
| "truthy (JNum t) = (t \<noteq> js ''0'' \<and> t \<noteq> js ''NaN'')"
| "truthy (JStr s) = (s \<noteq> [])"
| "truthy (JArr xs) = True"
| "truthy (JObj kvs) = True"

text \<open>
  Property access \<^verbatim>\<open>v.name\<close>, for the names the code reads (\<^verbatim>\<open>error\<close>,
  \<^verbatim>\<open>message\<close>, \<^verbatim>\<open>access_token\<close>, \<^verbatim>\<open>refresh_token\<close>), none of which is a
  property of a prototype: reading from \<^verbatim>\<open>null\<close> or \<^verbatim>\<open>undefined\<close> throws a TypeError,
  a primitive or an array has no such property, an object has it when it is its own.
\<close>

fun get_prop :: "json \<Rightarrow> jsstring \<Rightarrow> js_error + json" where
  "get_prop JUndefined name = Inl TypeError"
| "get_prop JNull name = Inl TypeError"
| "get_prop (JObj kvs) name = (case map_of kvs name of None \<Rightarrow> Inr JUndefined | Some v \<Rightarrow> Inr v)"
| "get_prop v name = Inr JUndefined"

text \<open>
  \<^verbatim>\<open>ToString\<close>, as a template literal, \<^verbatim>\<open>FormData.append\<close> and \<^verbatim>\<open>RegExp.test\<close>
  apply it. An array is joined with commas, \<^verbatim>\<open>null\<close> and \<^verbatim>\<open>undefined\<close> elements
  printing as the empty string. A parsed object has no callable property, so one with
  an own \<^verbatim>\<open>toString\<close> cannot be converted (TypeError); any other prints as
  \<^verbatim>\<open>[object Object]\<close>.
\<close>

fun join_comma :: "(js_error + jsstring) list \<Rightarrow> js_error + jsstring" where
  "join_comma [] = Inr []"
| "join_comma [x] = x"
| "join_comma (x # y # ys) =
     (case x of Inl e \<Rightarrow> Inl e
      | Inr s \<Rightarrow> (case join_comma (y # ys) of Inl e \<Rightarrow> Inl e | Inr r \<Rightarrow> Inr (s @ js '','' @ r)))"

fun to_string :: "json \<Rightarrow> js_error + jsstring" where
  "to_string JUndefined = Inr (js ''undefined'')"
| "to_string JNull = Inr (js ''null'')"
| "to_string (JBool b) = Inr (if b then js ''true'' else js ''false'')"
| "to_string (JNum t) = Inr t"
| "to_string (JStr s) = Inr s"
| "to_string (JArr xs) =
     join_comma (map (\<lambda>x. if x = JUndefined \<or> x = JNull then Inr [] else to_string x) xs)"
| "to_string (JObj kvs) =
     (if map_of kvs (js ''toString'') \<noteq> None then Inl TypeError else Inr (js ''[object Object]''))"

section \<open>normalize.js\<close>

subsection \<open>removeLinks\<close>

text \<open>
  \<^verbatim>\<open>text.replace(/https?:\/\/[^ ~]+/g, '')\<close>. The class \<^verbatim>\<open>[^ ~]\<close> is negated, so it
  also matches line terminators; \<^verbatim>\<open>+\<close> is greedy and needs one character at least.
  \<open>match_link s\<close> is the rest of \<open>s\<close> behind a match that starts at the head of \<open>s\<close>.
\<close>

definition link_char :: "jschar \<Rightarrow> bool" where
  "link_char c \<longleftrightarrow> c \<noteq> 0x20 \<and> c \<noteq> 0x7E"

definition link_body :: "jsstring \<Rightarrow> jsstring option" where
  "link_body s = (case s of [] \<Rightarrow> None
     | c # cs \<Rightarrow> if link_char c then Some (dropWhile link_char cs) else None)"

definition match_link :: "jsstring \<Rightarrow> jsstring option" where
  "match_link s =
     (if take 8 s = js ''https://'' \<and> link_body (drop 8 s) \<noteq> None then link_body (drop 8 s)
      else if take 7 s = js ''http://'' then link_body (drop 7 s)
      else None)"

lemma link_body_length: "link_body s = Some r \<Longrightarrow> length r < length s"
  by (auto simp: link_body_def less_Suc_eq_le length_dropWhile_le split: list.splits if_splits)

lemma match_link_length: "match_link s = Some r \<Longrightarrow> length r < length s"
  by (auto simp: match_link_def split: if_splits dest!: link_body_length)

function removeLinks :: "jsstring \<Rightarrow> jsstring" where
  "removeLinks [] = []"
| "removeLinks (c # cs) =
     (case match_link (c # cs) of
        Some rest \<Rightarrow> removeLinks rest
      | None \<Rightarrow> c # removeLinks cs)"
  by pat_completeness auto
termination
  by (relation "measure length") (auto dest: match_link_length)

subsection \<open>normalize\<close>

text \<open>A global replacement of single characters by the empty string.\<close>

definition remove_all :: "(jschar \<Rightarrow> bool) \<Rightarrow> jsstring \<Rightarrow> jsstring" where
  "remove_all P s = filter (\<lambda>c. \<not> P c) s"

text \<open>A global replacement of one character by a fixed string.\<close>

definition replace_all :: "jschar \<Rightarrow> jsstring \<Rightarrow> jsstring \<Rightarrow> jsstring" where
  "replace_all x r s = concat (map (\<lambda>c. if c = x then r else [c]) s)"

text \<open>
  A replacement without the \<^verbatim>\<open>g\<close> flag of the pattern \<^verbatim>\<open>P+\<close>: only the leftmost
  run of characters of the class is replaced, and the whole run (greedy).
\<close>

fun replace_first_run :: "(jschar \<Rightarrow> bool) \<Rightarrow> jsstring \<Rightarrow> jsstring \<Rightarrow> jsstring" where
  "replace_first_run P r [] = []"
| "replace_first_run P r (c # cs) =
     (if P c then r @ dropWhile P cs else c # replace_first_run P r cs)"

text \<open>The characters of \<^verbatim>\<open>/"|\{|\}|\*|:|<|>|\?|\/|\%|\+|\|/\<close>.\<close>

definition forbidden :: "jschar \<Rightarrow> bool" where
  "forbidden c \<longleftrightarrow> c \<in> {0x22, 0x7B, 0x7D, 0x2A, 0x3A, 0x3C, 0x3E, 0x3F, 0x2F, 0x25, 0x2B, 0x7C}"

text \<open>
  \<^verbatim>\<open>\s\<close>, which is also what \<^verbatim>\<open>trim()\<close> strips: the white space and the line
  terminators of ECMAScript.
\<close>

definition is_space :: "jschar \<Rightarrow> bool" where
  "is_space c \<longleftrightarrow>
     c \<in> {0x09, 0x0A, 0x0B, 0x0C, 0x0D, 0x20, 0xA0, 0x1680, 0x2028, 0x2029, 0x202F, 0x205F,
          0x3000, 0xFEFF} \<or> (0x2000 \<le> c \<and> c \<le> 0x200A)"

definition trim :: "jsstring \<Rightarrow> jsstring" where
  "trim s = rev (dropWhile is_space (rev (dropWhile is_space s)))"

text \<open>\<^verbatim>\<open>.replace(/^~/, '')\<close>.\<close>

definition strip_leading_tilde :: "jsstring \<Rightarrow> jsstring" where
  "strip_leading_tilde s = (case s of [] \<Rightarrow> [] | c # cs \<Rightarrow> if c = 0x7E then cs else s)"

text \<open>
  \<^verbatim>\<open>.replace(/^\.|\.$/, '')\<close>: one match only. At index 0 the first alternative is
  tried first; at a later index only \<^verbatim>\<open>\.$\<close> can match, at the last character.
\<close>

definition strip_edge_period :: "jsstring \<Rightarrow> jsstring" where
  "strip_edge_period s =
     (case s of [] \<Rightarrow> []
      | c # cs \<Rightarrow> if c = 0x2E then cs else if last s = 0x2E then butlast s else s)"

text \<open>
  Numbers are IEEE 754 doubles, given here by their rational values. A product of two
  doubles is the exact product rounded to the nearest double, to the even mantissa on a
  tie. \<open>to_double_from k x\<close> looks for the binade of \<open>0 \<le> x < 2 ^ (53 - k)\<close>: the first
  \<open>k\<close> with \<open>2 ^ 52 \<le> x * 2 ^ k\<close> makes \<open>x * 2 ^ k\<close> the mantissa, which is rounded to an
  integer; at \<open>k = 1074\<close> the subnormal numbers begin, whose unit is \<open>2 ^ -1074\<close>. The
  products of this program are below \<open>2 ^ 10\<close>, so the search starts at \<open>k = 43\<close>.
\<close>

definition round_half_even :: "rat \<Rightarrow> int" where
  "round_half_even x =
     (let n = \<lfloor>x\<rfloor>; d = x - of_int n
      in if d < 1 / 2 then n else if 1 / 2 < d then n + 1 else if even n then n else n + 1)"

function to_double_from :: "nat \<Rightarrow> rat \<Rightarrow> rat" where
  "to_double_from k x =
     (if 2 ^ 52 \<le> x * 2 ^ k \<or> 1074 \<le> k then of_int (round_half_even (x * 2 ^ k)) / 2 ^ k
      else to_double_from (k + 1) x)"
  by pat_completeness auto
termination
  by (relation "measure (\<lambda>(k, x). 1074 - k)") auto

declare to_double_from.simps [simp del]

definition to_double :: "rat \<Rightarrow> rat" where
  "to_double x = to_double_from 43 x"

definition double_times :: "rat \<Rightarrow> rat \<Rightarrow> rat" where
  "double_times a b = to_double (a * b)"

text \<open>
  \<^verbatim>\<open>(Math.random() * 1000).toFixed(0)\<close>. The argument \<open>rnd\<close> is the value of
  \<^verbatim>\<open>Math.random()\<close>, a double with \<open>0 \<le> rnd < 1\<close>. \<^verbatim>\<open>toFixed(0)\<close> prints the integer
  \<open>n\<close> for which \<open>n - x\<close> is closest to zero, the larger one when there are two.
\<close>

definition toFixed0 :: "rat \<Rightarrow> jsstring" where
  "toFixed0 x = dec (nat \<lfloor>x + 1 / 2\<rfloor>)"

definition numberTxt :: "rat \<Rightarrow> jsstring" where
  "numberTxt rnd = toFixed0 (double_times rnd 1000)"

definition invalidNames :: "jsstring list" where
  "invalidNames =
     [js ''.lock'', js ''CON'', js ''PRN'', js ''AUX'', js ''NUL'', js ''_vti_'', js ''desktop.ini'']
     @ map (\<lambda>i. js ''COM'' @ dec i) [0..<10]
     @ map (\<lambda>i. js ''LPT'' @ dec i) [0..<10]"

definition replaceOutlookInvalidNames :: "rat \<Rightarrow> jsstring \<Rightarrow> jsstring" where
  "replaceOutlookInvalidNames rnd str =
     (if js_includes str (js ''_vti_'') then js ''vti'' @ numberTxt rnd
      else if str \<in> set invalidNames then str @ numberTxt rnd
      else str)"

definition normalizedTxt :: "jsstring \<Rightarrow> jsstring" where
  "normalizedTxt text =
     trim
      (replace_first_run is_space (js '' '')
        (strip_edge_period
          (strip_leading_tilde
            (replace_first_run (\<lambda>c. c = 0x2E) (js ''.'')
              (replace_all 0x26 (js ''and'')
                (replace_all 0x0A (js '' - '')
                  (remove_all (\<lambda>c. c = 0x0D \<or> c = 0x09)
                    (remove_all forbidden
                      (remove_all (\<lambda>c. c = 0x2A)
                        (removeLinks text))))))))))"

definition normalize_text :: "rat \<Rightarrow> jsstring \<Rightarrow> jsstring" where
  "normalize_text rnd text = replaceOutlookInvalidNames rnd (normalizedTxt text)"

subsection \<open>encode\<close>

text \<open>
  \<^verbatim>\<open>encodeURIComponent\<close>: the string is read as UTF-16; an unpaired surrogate throws a
  URIError; a character outside \<^verbatim>\<open>A-Z a-z 0-9 - _ . ! ~ * ' ( )\<close> is replaced by the
  escaped bytes of its UTF-8 encoding.
\<close>

definition hex_digit :: "nat \<Rightarrow> jschar" where
  "hex_digit d = (if d < 10 then of_nat (48 + d) else of_nat (55 + d))"

definition pct :: "nat \<Rightarrow> jsstring" where
  "pct b = [0x25, hex_digit (b div 16), hex_digit (b mod 16)]"

definition utf8 :: "nat \<Rightarrow> nat list" where
  "utf8 cp =
     (if cp < 0x80 then [cp]
      else if cp < 0x800 then [0xC0 + cp div 0x40, 0x80 + cp mod 0x40]
      else if cp < 0x10000 then
        [0xE0 + cp div 0x1000, 0x80 + cp div 0x40 mod 0x40, 0x80 + cp mod 0x40]
      else
        [0xF0 + cp div 0x40000, 0x80 + cp div 0x1000 mod 0x40, 0x80 + cp div 0x40 mod 0x40,
         0x80 + cp mod 0x40])"

definition uri_unescaped :: "jschar \<Rightarrow> bool" where
  "uri_unescaped c \<longleftrightarrow>
     (0x41 \<le> c \<and> c \<le> 0x5A) \<or> (0x61 \<le> c \<and> c \<le> 0x7A) \<or> (0x30 \<le> c \<and> c \<le> 0x39)
     \<or> c \<in> {0x2D, 0x5F, 0x2E, 0x21, 0x7E, 0x2A, 0x27, 0x28, 0x29}"

definition high_surrogate :: "jschar \<Rightarrow> bool" where
  "high_surrogate c \<longleftrightarrow> 0xD800 \<le> c \<and> c \<le> 0xDBFF"

definition low_surrogate :: "jschar \<Rightarrow> bool" where
  "low_surrogate c \<longleftrightarrow> 0xDC00 \<le> c \<and> c \<le> 0xDFFF"

definition escape_cp :: "nat \<Rightarrow> jsstring" where
  "escape_cp cp = concat (map pct (utf8 cp))"

definition prepend :: "jsstring \<Rightarrow> js_error + jsstring \<Rightarrow> js_error + jsstring" where
  "prepend s r = (case r of Inl e \<Rightarrow> Inl e | Inr t \<Rightarrow> Inr (s @ t))"

fun encodeURIComponent :: "jsstring \<Rightarrow> js_error + jsstring" where
  "encodeURIComponent [] = Inr []"
| "encodeURIComponent (c # cs) =
     (if uri_unescaped c then prepend [c] (encodeURIComponent cs)
      else if low_surrogate c then Inl URIError
      else if high_surrogate c then
        (case cs of
           [] \<Rightarrow> Inl URIError
         | d # ds \<Rightarrow>
             if low_surrogate d
             then prepend
                    (escape_cp (0x10000 + (unat c - 0xD800) * 0x400 + (unat d - 0xDC00)))
                    (encodeURIComponent ds)
             else Inl URIError)
      else prepend (escape_cp (unat c)) (encodeURIComponent cs))"

text \<open>
  \<^verbatim>\<open>c.charCodeAt(0).toString(16).toUpperCase()\<close>: the hexadecimal digits of the code,
  without padding.
\<close>

fun to_hex_upper :: "nat \<Rightarrow> jsstring" where
  "to_hex_upper n =
     (if n < 16 then [hex_digit n] else to_hex_upper (n div 16) @ [hex_digit (n mod 16)])"

declare to_hex_upper.simps [simp del]

definition encodeRFC3986URIComponent :: "jsstring \<Rightarrow> js_error + jsstring" where
  "encodeRFC3986URIComponent str =
     (case encodeURIComponent str of
        Inl e \<Rightarrow> Inl e
      | Inr s \<Rightarrow>
          Inr (concat (map (\<lambda>c. if c \<in> {0x21, 0x27, 0x28, 0x29, 0x2A}
                                 then 0x25 # to_hex_upper (unat c) else [c]) s)))"

definition encode :: "rat \<Rightarrow> jsstring \<Rightarrow> js_error + jsstring" where
  "encode rnd text = encodeRFC3986URIComponent (normalize_text rnd text)"

subsection \<open>decode\<close>

text \<open>
  \<^verbatim>\<open>decodeURIComponent\<close>: every \<^verbatim>\<open>%XX\<close> is a byte; the bytes must form the UTF-8
  encoding of code points (no overlong form, no surrogate, nothing above 0x10FFFF),
  which are written back as UTF-16. Anything else throws a URIError.
\<close>

definition hex_value :: "jschar \<Rightarrow> nat option" where
  "hex_value c =
     (if 0x30 \<le> c \<and> c \<le> 0x39 then Some (unat c - 0x30)
      else if 0x41 \<le> c \<and> c \<le> 0x46 then Some (unat c - 0x37)
      else if 0x61 \<le> c \<and> c \<le> 0x66 then Some (unat c - 0x57)
      else None)"

fun pct_byte :: "jsstring \<Rightarrow> (nat \<times> jsstring) option" where
  "pct_byte (p # h # l # rest) =
     (if p = 0x25 then
        (case (hex_value h, hex_value l) of
           (Some a, Some b) \<Rightarrow> Some (16 * a + b, rest)
         | _ \<Rightarrow> None)
      else None)"
| "pct_byte s = None"

fun pct_bytes :: "nat \<Rightarrow> jsstring \<Rightarrow> (nat list \<times> jsstring) option" where
  "pct_bytes 0 s = Some ([], s)"
| "pct_bytes (Suc n) s =
     (case pct_byte s of
        None \<Rightarrow> None
      | Some (b, rest) \<Rightarrow>
          (case pct_bytes n rest of None \<Rightarrow> None | Some (bs, rest') \<Rightarrow> Some (b # bs, rest')))"

text \<open>The number of bytes that follow a leading byte, when it is one.\<close>

definition continuation_count :: "nat \<Rightarrow> nat option" where
  "continuation_count b =
     (if 0xC0 \<le> b \<and> b < 0xE0 then Some 1
      else if 0xE0 \<le> b \<and> b < 0xF0 then Some 2
      else if 0xF0 \<le> b \<and> b < 0xF8 then Some 3
      else None)"

definition utf8_value :: "nat \<Rightarrow> nat list \<Rightarrow> nat option" where
  "utf8_value b bs =
     (if \<not> list_all (\<lambda>x. 0x80 \<le> x \<and> x < 0xC0) bs then None
      else
        (let v = foldl (\<lambda>a x. a * 0x40 + x mod 0x40) (b mod 2 ^ (6 - length bs)) bs;
             least = (if length bs = 1 then 0x80 else if length bs = 2 then 0x800 else 0x10000)
         in if v < least \<or> (0xD800 \<le> v \<and> v \<le> 0xDFFF) \<or> 0x10FFFF < v then None else Some v))"

definition utf16 :: "nat \<Rightarrow> jsstring" where
  "utf16 cp =
     (if cp < 0x10000 then [of_nat cp]
      else [of_nat (0xD800 + (cp - 0x10000) div 0x400), of_nat (0xDC00 + (cp - 0x10000) mod 0x400)])"

lemma pct_byte_length: "pct_byte s = Some (b, r) \<Longrightarrow> length r < length s"
  by (induction s rule: pct_byte.induct) (auto split: if_splits option.splits)

lemma pct_bytes_length: "pct_bytes n s = Some (bs, r) \<Longrightarrow> length r \<le> length s"
proof (induction n arbitrary: s bs r)
  case 0
  then show ?case by simp
next
  case (Suc n)
  then show ?case
    by (fastforce split: option.splits prod.splits dest: pct_byte_length)
qed

function decodeURIComponent :: "jsstring \<Rightarrow> js_error + jsstring" where
  "decodeURIComponent [] = Inr []"
| "decodeURIComponent (c # cs) =
     (if c \<noteq> 0x25 then prepend [c] (decodeURIComponent cs)
      else
        (case pct_byte (c # cs) of
           None \<Rightarrow> Inl URIError
         | Some (b, rest) \<Rightarrow>
             if b < 0x80 then prepend [of_nat b] (decodeURIComponent rest)
             else
               (case continuation_count b of
                  None \<Rightarrow> Inl URIError
                | Some n \<Rightarrow>
                    (case pct_bytes n rest of
                       None \<Rightarrow> Inl URIError
                     | Some (bs, rest') \<Rightarrow>
                         (case utf8_value b bs of
                            None \<Rightarrow> Inl URIError
                          | Some v \<Rightarrow> prepend (utf16 v) (decodeURIComponent rest'))))))"
  by pat_completeness auto
termination
proof (relation "measure length", goal_cases)
  case 1
  show ?case by simp
next
  case (2 c cs)
  show ?case by simp
next
  case (3 c cs x b rest)
  then show ?case using pct_byte_length [of "c # cs" b rest] by simp
next
  case (4 c cs x b rest n y bs rest' v)
  then show ?case
    using pct_byte_length [of "c # cs" b rest] pct_bytes_length [of n rest bs rest'] by simp
qed

definition decode :: "rat \<Rightarrow> jsstring \<Rightarrow> js_error + jsstring" where
  "decode rnd text = decodeURIComponent (normalize_text rnd text)"

section \<open>msGraph.service.js\<close>

subsection \<open>The world around the service\<close>

datatype body = NoBody | RawBody "8 word list" | FormBody "(jsstring \<times> jsstring) list"

record fetch_request =
  fr_url :: jsstring
  fr_method :: jsstring
  fr_headers :: "(jsstring \<times> jsstring) list"
  fr_body :: body

text \<open>What the code reads of a \<^verbatim>\<open>Response\<close>; \<open>r_json\<close> is the outcome of \<^verbatim>\<open>json()\<close>.\<close>

record response =
  r_url :: jsstring
  r_status :: nat
  r_statusText :: jsstring
  r_json :: "js_error + json"

text \<open>
  The collaborators: \<open>net n req\<close> is the outcome of the call \<^verbatim>\<open>fetch(req)\<close> that comes
  after \<open>n\<close> earlier calls (\<open>Inl\<close> when the promise is rejected); \<open>file_exists\<close> tells
  whether \<^verbatim>\<open>fs.access(path, F_OK)\<close> resolves; \<open>read_file\<close> is \<^verbatim>\<open>fs.readFile\<close>.
\<close>

record env =
  net :: "nat \<Rightarrow> fetch_request \<Rightarrow> js_error + response"
  file_exists :: "jsstring \<Rightarrow> bool"
  read_file :: "jsstring \<Rightarrow> js_error + 8 word list"

text \<open>The arguments of a console call.\<close>

datatype logval =
    LStr jsstring
  | LNum nat
  | LVal json
  | LErr js_error
  | LObj "(string \<times> logval) list"
  | LStream

datatype console_call =
    ConsoleDebug "logval list"
  | ConsoleInfo "logval list"
  | ConsoleError "logval list"

subsection \<open>The service instance\<close>

text \<open>
  The private fields of \<^verbatim>\<open>MsGraphService\<close>, and the trace of what the instance did to
  the world: its console calls and the requests it passed to \<^verbatim>\<open>fetch\<close>, in order.
\<close>

record service =
  msDomain :: "jsstring option"
  msClientId :: jsstring
  msClientSecret :: jsstring
  msCode :: json
  msAccessToken :: json
  msRefreshToken :: json
  sharepointFolder :: jsstring
  sharepointFolderUrl :: jsstring
  isDebug :: json
  shouldLogToken :: bool
  console :: "console_call list"
  fetched :: "fetch_request list"

definition msRedirectUri :: jsstring where
  "msRedirectUri = js ''https://login.live.com/oauth20_desktop.srf''"

definition msGraphAuthUrl :: jsstring where
  "msGraphAuthUrl = js ''https://login.microsoftonline.com/common/oauth2/v2.0/''"

definition msGraphUrl :: jsstring where
  "msGraphUrl = js ''https://graph.microsoft.com/v1.0/''"

definition msScopes :: jsstring where
  "msScopes = js ''openid offline_access User.Read Files.ReadWrite.All''"

definition MAX_RETRIES :: nat where
  "MAX_RETRIES = 3"

text \<open>
  The constructor's parameter object. Absent string parameters are \<open>None\<close>; the two
  flags are kept as JavaScript values, since the code tests them with \<^verbatim>\<open>||\<close> and
  \<^verbatim>\<open>===\<close>. \<open>env_debug\<close> is \<^verbatim>\<open>process.env.MS_GRAPH_DEBUG\<close>.
\<close>

record params =
  p_domain :: "jsstring option"
  p_client :: "jsstring option"
  p_secret :: "jsstring option"
  p_token :: "jsstring option"
  p_sharepointFolder :: "jsstring option"
  p_sharepointFolderUrl :: "jsstring option"
  p_debug :: json
  p_logToken :: json

definition falsy_str :: "jsstring option \<Rightarrow> bool" where
  "falsy_str x \<longleftrightarrow> x = None \<or> x = Some []"

definition or_default :: "jsstring option \<Rightarrow> jsstring \<Rightarrow> jsstring" where
  "or_default x d = (if falsy_str x then d else the x)"

definition logout :: "service \<Rightarrow> service" where
  "logout st = st\<lparr>msCode := JNull, msAccessToken := JNull, msRefreshToken := JNull\<rparr>"

definition constructor :: "params \<Rightarrow> jsstring option \<Rightarrow> js_error + service" where
  "constructor p env_debug =
     (if falsy_str (p_client p) then
        Inl (BaseError ([0x26A0, 0xFE0F] @ js '' The Microsoft APP ClientID is required!'') NoCause)
      else if falsy_str (p_secret p) then
        Inl (BaseError ([0x26A0, 0xFE0F] @ js '' The Microsoft APP ClientSecret is required!'')
               NoCause)
      else
        Inr ((logout
               \<lparr> msDomain = p_domain p,
                 msClientId = the (p_client p),
                 msClientSecret = the (p_secret p),
                 msCode = JUndefined,
                 msAccessToken = JUndefined,
                 msRefreshToken = JUndefined,
                 sharepointFolder = or_default (p_sharepointFolder p) (js ''me/drive/root''),
                 sharepointFolderUrl = or_default (p_sharepointFolderUrl p) (js ''Shared Documents/''),
                 isDebug = (if truthy (p_debug p) then p_debug p
                            else JBool (env_debug = Some (js ''true''))),
                 shouldLogToken = (p_logToken p = JStr (js ''true'')),
                 console = [],
                 fetched = [] \<rparr>)
              \<lparr> msAccessToken := (case p_token p of None \<Rightarrow> JUndefined | Some t \<Rightarrow> JStr t) \<rparr>))"

text \<open>\<^verbatim>\<open>#debug\<close>: three console calls when the debug flag is truthy, nothing otherwise.\<close>

definition debug :: "jsstring \<Rightarrow> logval \<Rightarrow> service \<Rightarrow> service" where
  "debug path message st =
     (if truthy (isDebug st) then
        st\<lparr>console := console st @
             [ConsoleDebug [LStr ([0x0A, 0x26A0, 0xFE0F, 0x20, 0x20] @ path)],
              ConsoleDebug [message],
              ConsoleDebug []]\<rparr>
      else st)"

definition debugResponse :: "jsstring \<Rightarrow> response \<Rightarrow> service \<Rightarrow> service" where
  "debugResponse path r st =
     debug path
       (LObj [(''url'', LStr (r_url r)), (''status'', LNum (r_status r)),
              (''statusText'', LStr (r_statusText r)), (''body'', LStream)]) st"

definition getResponseLog :: "response \<Rightarrow> logval" where
  "getResponseLog r =
     LObj [(''url'', LStr (r_url r)), (''status'', LNum (r_status r)),
           (''statusText'', LStr (r_statusText r))]"

text \<open>A call of \<^verbatim>\<open>fetch\<close>: the world answers, and the request joins the trace.\<close>

definition fetch :: "env \<Rightarrow> fetch_request \<Rightarrow> service \<Rightarrow> (js_error + response) \<times> service" where
  "fetch env req st = (net env (length (fetched st)) req, st\<lparr>fetched := fetched st @ [req]\<rparr>)"

definition setAuthorizationTokens :: "json \<Rightarrow> service \<Rightarrow> js_error + service" where
  "setAuthorizationTokens authorization st =
     (case get_prop authorization (js ''access_token'') of
        Inl e \<Rightarrow> Inl e
      | Inr access \<Rightarrow>
          (case get_prop authorization (js ''refresh_token'') of
             Inl e \<Rightarrow> Inl e
           | Inr refresh \<Rightarrow>
               (let st1 = st\<lparr>msAccessToken := access, msRefreshToken := refresh\<rparr>
                in Inr (if shouldLogToken st1
                        then st1\<lparr>console := console st1 @
                               [ConsoleInfo [LStr ([0xD83D, 0xDD11] @ js '' MS Access Token: %s'' @ [0x0A]),
                                             LVal (msAccessToken st1)]]\<rparr>
                        else st1))))"

text \<open>
  \<^verbatim>\<open>FormData.append(name, value)\<close> stores both as scalar value strings: a surrogate
  without its partner becomes U+FFFD.
\<close>

fun usv :: "jsstring \<Rightarrow> jsstring" where
  "usv [] = []"
| "usv (c # cs) =
     (if high_surrogate c then
        (case cs of
           [] \<Rightarrow> [0xFFFD]
         | d # ds \<Rightarrow> if low_surrogate d then c # d # usv ds else 0xFFFD # usv cs)
      else if low_surrogate c then 0xFFFD # usv cs
      else c # usv cs)"

definition append_field ::
  "(jsstring \<times> jsstring) list \<Rightarrow> jsstring \<Rightarrow> jsstring \<Rightarrow> (jsstring \<times> jsstring) list" where
  "append_field entries name v = entries @ [(usv name, usv v)]"

text \<open>The request that the \<^verbatim>\<open>try\<close> block of \<^verbatim>\<open>#requestAuthorizationToken\<close> sends.\<close>

definition tokenRequest :: "service \<Rightarrow> jsstring \<Rightarrow> jsstring \<Rightarrow> jsstring \<Rightarrow> fetch_request" where
  "tokenRequest st grant_type tokenKey token =
     \<lparr> fr_url = msGraphAuthUrl @ js ''token'',
       fr_method = js ''POST'',
       fr_headers = [],
       fr_body = FormBody
         (append_field
           (append_field
             (append_field
               (append_field
                 (append_field
                   (append_field [] (js ''client_id'') (msClientId st))
                   (js ''client_secret'') (msClientSecret st))
                 (js ''scope'') msScopes)
               (js ''redirect_uri'') msRedirectUri)
             (js ''grant_type'') grant_type)
           tokenKey token) \<rparr>"

definition requestAuthorizationToken_try ::
  "env \<Rightarrow> json \<Rightarrow> jsstring \<Rightarrow> jsstring \<Rightarrow> service \<Rightarrow> (js_error + json) \<times> service" where
  "requestAuthorizationToken_try env token grant_type tokenKey st =
     (case to_string token of
        Inl e \<Rightarrow> (Inl e, st)
      | Inr t \<Rightarrow>
          (case fetch env (tokenRequest st grant_type tokenKey t) st of
             (Inl e, st1) \<Rightarrow> (Inl e, st1)
           | (Inr r, st1) \<Rightarrow>
               (let st2 = debugResponse (js ''RequestAuthorizationToken'') r st1
                in case r_json r of
                     Inl e \<Rightarrow> (Inl e, st2)
                   | Inr authorization \<Rightarrow>
                       (let st3 = debug (js ''RequestAuthorizationToken'') (LVal authorization) st2
                        in case get_prop authorization (js ''error'') of
                             Inl e \<Rightarrow> (Inl e, st3)
                           | Inr err \<Rightarrow>
                               if truthy err then
                                 (case get_prop err (js ''message'') of
                                    Inl e \<Rightarrow> (Inl e, st3)
                                  | Inr m \<Rightarrow>
                                      (case to_string (if truthy m then m
                                                       else JStr (js ''Error in get authorization token'')) of
                                         Inl e \<Rightarrow> (Inl e, st3)
                                       | Inr msg \<Rightarrow> (Inl (BaseError msg NoCause), st3)))
                               else
                                 (case setAuthorizationTokens authorization st3 of
                                    Inl e \<Rightarrow> (Inl e, st3)
                                  | Inr st4 \<Rightarrow> (Inr authorization, st4))))))"

definition requestAuthorizationToken ::
  "env \<Rightarrow> json \<Rightarrow> jsstring \<Rightarrow> service \<Rightarrow> (js_error + json) \<times> service" where
  "requestAuthorizationToken env token grant_type st =
     (let tokenKey = (if grant_type = js ''refresh_token'' then grant_type else js ''code'')
      in case requestAuthorizationToken_try env token grant_type tokenKey st of
           (Inr authorization, st1) \<Rightarrow> (Inr authorization, st1)
         | (Inl error, st1) \<Rightarrow>
             (Inl (BaseError (js ''Cannot get the Sharepoint authorization '' @ tokenKey) NoCause),
              debug (js ''RequestAuthorizationToken'') (LErr error) st1))"

text \<open>
  \<^verbatim>\<open>#refreshToken\<close> returns the promise of \<^verbatim>\<open>#requestAuthorizationToken\<close> without
  awaiting it, so its own \<^verbatim>\<open>catch\<close> never sees a rejection: the error of the token
  request reaches the caller as it is.
\<close>

definition refreshToken :: "env \<Rightarrow> service \<Rightarrow> (js_error + json) \<times> service" where
  "refreshToken env st =
     (let st1 = debug (js ''RefreshToken'') (LVal (msRefreshToken st)) st
      in requestAuthorizationToken env (msRefreshToken st1) (js ''refresh_token'') st1)"

text \<open>
  \<^verbatim>\<open>{ 'Authorization': bearer, ...headers }\<close>: the caller's headers are spread behind the
  bearer header, so a caller's own \<^verbatim>\<open>Authorization\<close> property replaces its value (in the
  first position, where the property was created).
\<close>

definition spread_headers ::
  "jsstring \<Rightarrow> (jsstring \<times> jsstring) list \<Rightarrow> (jsstring \<times> jsstring) list" where
  "spread_headers bearer headers =
     (js ''Authorization'',
      (case map_of headers (js ''Authorization'') of None \<Rightarrow> bearer | Some v \<Rightarrow> v))
     # filter (\<lambda>kv. fst kv \<noteq> js ''Authorization'') headers"

definition apiRequest ::
  "jsstring \<Rightarrow> jsstring \<Rightarrow> body \<Rightarrow> (jsstring \<times> jsstring) list \<Rightarrow> jsstring \<Rightarrow> fetch_request" where
  "apiRequest url method b headers token =
     \<lparr> fr_url = url,
       fr_method = method,
       fr_headers = spread_headers (js ''Bearer '' @ token) headers,
       fr_body = b \<rparr>"

definition internalRequest ::
  "env \<Rightarrow> jsstring \<Rightarrow> jsstring \<Rightarrow> body \<Rightarrow> (jsstring \<times> jsstring) list \<Rightarrow> service
     \<Rightarrow> (js_error + response) \<times> service" where
  "internalRequest env url method b headers st =
     (case to_string (msAccessToken st) of
        Inl e \<Rightarrow> (Inl e, st)
      | Inr token \<Rightarrow> fetch env (apiRequest url method b headers token) st)"

text \<open>
  \<^verbatim>\<open>#renewTokenWithNeeded\<close>. Its \<^verbatim>\<open>catch\<close> logs and rethrows. The promise of
  \<^verbatim>\<open>response.json()\<close> is returned without \<^verbatim>\<open>await\<close>: a body that is not JSON rejects
  the result, with no log entry.
\<close>

definition renewTokenWithNeeded_catch :: "js_error \<Rightarrow> service \<Rightarrow> (js_error + json) \<times> service" where
  "renewTokenWithNeeded_catch error st =
     (Inl error, debug (js ''RenewTokenWithNeeded Error'') (LErr error) st)"

definition renewTokenWithNeeded_finish :: "response \<Rightarrow> service \<Rightarrow> (js_error + json) \<times> service" where
  "renewTokenWithNeeded_finish r st =
     (let st1 = debug (js ''RenewTokenWithNeeded'') (getResponseLog r) st
      in if r_status r = 401
         then renewTokenWithNeeded_catch (BaseError (r_statusText r) NoCause) st1
         else (r_json r, st1))"

definition renewTokenWithNeeded ::
  "env \<Rightarrow> jsstring \<Rightarrow> jsstring \<Rightarrow> body \<Rightarrow> (jsstring \<times> jsstring) list \<Rightarrow> service
     \<Rightarrow> (js_error + json) \<times> service" where
  "renewTokenWithNeeded env url method b headers st =
     (case internalRequest env url method b headers st of
        (Inl e, st1) \<Rightarrow> renewTokenWithNeeded_catch e st1
      | (Inr r, st1) \<Rightarrow>
          if r_status r = 401 then
            (case refreshToken env st1 of
               (Inl e, st2) \<Rightarrow> renewTokenWithNeeded_catch e st2
             | (Inr a, st2) \<Rightarrow>
                 (case internalRequest env url method b headers st2 of
                    (Inl e, st3) \<Rightarrow> renewTokenWithNeeded_catch e st3
                  | (Inr r', st3) \<Rightarrow> renewTokenWithNeeded_finish r' st3))
          else renewTokenWithNeeded_finish r st1)"

subsection \<open>The request loop\<close>

record api_request =
  rq_url :: jsstring
  rq_method :: jsstring
  rq_body :: body
  rq_headers :: "(jsstring \<times> jsstring) list"
  rq_conflict :: json

text \<open>How one pass through the \<^verbatim>\<open>try\<close> block of \<^verbatim>\<open>#requestGraphApi\<close> ends.\<close>

datatype attempt =
    Return json
  | Break
  | Throw js_error

text \<open>\<^verbatim>\<open>/IO error during request payload read/.test(v)\<close>.\<close>

definition test_io_error :: "json \<Rightarrow> js_error + bool" where
  "test_io_error v =
     (case to_string v of
        Inl e \<Rightarrow> Inl e
      | Inr s \<Rightarrow> Inr (js_includes s (js ''IO error during request payload read'')))"

text \<open>
  The \<^verbatim>\<open>try\<close> block: the outcome, the value of the variable \<^verbatim>\<open>response\<close> behind it
  and the new state.
\<close>

definition requestGraphApi_try ::
  "env \<Rightarrow> api_request \<Rightarrow> json \<Rightarrow> service \<Rightarrow> attempt \<times> json \<times> service" where
  "requestGraphApi_try env rq response st =
     (case renewTokenWithNeeded env (msGraphUrl @ rq_url rq) (rq_method rq) (rq_body rq)
             (rq_headers rq) st of
        (Inl e, st1) \<Rightarrow> (Throw e, response, st1)
      | (Inr resp, st1) \<Rightarrow>
          (let st2 = debug (js ''RequestGraphApi'') (LVal resp) st1
           in case get_prop resp (js ''error'') of
                Inl e \<Rightarrow> (Throw e, resp, st2)
              | Inr err \<Rightarrow>
                  if truthy err then
                    (let st3 = st2\<lparr>console := console st2 @
                                 [ConsoleError [LStr (js ''#requestGraphApi: ''), LStr (rq_url rq),
                                                LVal resp]]\<rparr>
                     in case get_prop err (js ''message'') of
                          Inl e \<Rightarrow> (Throw e, resp, st3)
                        | Inr m \<Rightarrow>
                            (case test_io_error m of
                               Inl e \<Rightarrow> (Throw e, resp, st3)
                             | Inr True \<Rightarrow> (Return JNull, resp, st3)
                             | Inr False \<Rightarrow>
                                 (Throw (BaseError (js ''Error in request ['' @ rq_method rq
                                                    @ js '']: '' @ rq_url rq)
                                           (CausedByValue err)),
                                  resp, st3)))
                  else (Break, resp, st2)))"

text \<open>The code behind the loop.\<close>

definition requestGraphApi_end ::
  "api_request \<Rightarrow> nat \<Rightarrow> json \<Rightarrow> service \<Rightarrow> (js_error + json) \<times> service" where
  "requestGraphApi_end rq retry response st =
     (if retry > MAX_RETRIES
      then (Inl (BaseError (js ''Max retries error in request ['' @ rq_method rq
                            @ js '']: '' @ rq_url rq) NoCause), st)
      else (Inr response, st))"

text \<open>
  The \<^verbatim>\<open>while\<close> loop. In the \<^verbatim>\<open>catch\<close> block the counter is incremented inside the
  argument of \<^verbatim>\<open>#debug\<close>, which is evaluated whether or not debugging is on.
\<close>

function requestGraphApi_loop ::
  "env \<Rightarrow> api_request \<Rightarrow> nat \<Rightarrow> json \<Rightarrow> service \<Rightarrow> (js_error + json) \<times> service" where
  "requestGraphApi_loop env rq retry response st =
     (if retry \<le> MAX_RETRIES then
        (case requestGraphApi_try env rq response st of
           (Return v, response1, st1) \<Rightarrow> (Inr v, st1)
         | (Break, response1, st1) \<Rightarrow> requestGraphApi_end rq retry response1 st1
         | (Throw error, response1, st1) \<Rightarrow>
             requestGraphApi_loop env rq (retry + 1) response1
               (debug (js ''RequestGraphApi'')
                  (LObj [(''url'', LStr (rq_url rq)),
                         (''error'', LStr (js ''Retrying '' @ dec retry @ js '' time(s)'')),
                         (''throwed'', LErr error)]) st1))
      else requestGraphApi_end rq retry response st)"
  by pat_completeness auto
termination
  by (relation "measure (\<lambda>(env, rq, retry, response, st). MAX_RETRIES + 1 - retry)") auto

declare requestGraphApi_loop.simps [simp del]

definition requestGraphApi :: "env \<Rightarrow> api_request \<Rightarrow> service \<Rightarrow> (js_error + json) \<times> service" where
  "requestGraphApi env rq st = requestGraphApi_loop env rq 1 JNull st"

definition requestGraphPut ::
  "env \<Rightarrow> jsstring \<Rightarrow> body \<Rightarrow> (jsstring \<times> jsstring) list \<Rightarrow> json \<Rightarrow> service
     \<Rightarrow> (js_error + json) \<times> service" where
  "requestGraphPut env url b headers conflict st =
     requestGraphApi env
       \<lparr> rq_url = url, rq_method = js ''PUT'', rq_body = b, rq_headers = headers,
         rq_conflict = conflict \<rparr> st"

subsection \<open>uploadFile\<close>

text \<open>\<^verbatim>\<open>str.split('/')\<close>: never empty, so \<^verbatim>\<open>.at(-1)\<close> is its last element.\<close>

fun split_slash :: "jsstring \<Rightarrow> jsstring list" where
  "split_slash [] = [[]]"
| "split_slash (c # cs) =
     (if c = 0x2F then [] # split_slash cs
      else (case split_slash cs of [] \<Rightarrow> [[c]] | seg # segs \<Rightarrow> (c # seg) # segs))"

definition fileExists :: "env \<Rightarrow> jsstring \<Rightarrow> bool" where
  "fileExists env filename = file_exists env filename"

text \<open>The \<^verbatim>\<open>try\<close> block of \<^verbatim>\<open>uploadFile\<close>.\<close>

definition uploadFile_try ::
  "env \<Rightarrow> jsstring \<Rightarrow> jsstring \<Rightarrow> jsstring \<Rightarrow> json \<Rightarrow> service \<Rightarrow> (js_error + json) \<times> service" where
  "uploadFile_try env urlFile attachmentDir file conflict st =
     (let filePath = attachmentDir @ js ''/'' @ file;
          fileExist = fileExists env filePath;
          st1 = debug (js ''uploadFile'')
                  (LStr (js ''File exists? '' @ (if fileExist then js ''true'' else js ''false''))) st
      in if \<not> fileExist then
           (Inr JNull,
            debug (js ''uploadFile'') (LStr (js ''File '' @ filePath @ js '' not exists.'')) st1)
         else
           (case read_file env (attachmentDir @ js ''/'' @ file) of
              Inl e \<Rightarrow> (Inl e, st1)
            | Inr fileContent \<Rightarrow>
                (case requestGraphPut env urlFile (RawBody fileContent) [] conflict st1 of
                   (Inl e, st2) \<Rightarrow> (Inl e, st2)
                 | (Inr resp, st2) \<Rightarrow>
                     (case (if resp = JNull \<or> resp = JUndefined then Inr JUndefined
                            else get_prop resp (js ''error'')) of
                        Inl e \<Rightarrow> (Inl e, st2)
                      | Inr err \<Rightarrow>
                          if truthy err then
                            (let st3 = debug (js ''UploadFile'') (LVal err) st2
                             in case get_prop err (js ''message'') of
                                  Inl e \<Rightarrow> (Inl e, st3)
                                | Inr m \<Rightarrow>
                                    (case to_string (if truthy m then m
                                                     else JStr (js ''Error in upload file'')) of
                                       Inl e \<Rightarrow> (Inl e, st3)
                                     | Inr msg \<Rightarrow> (Inl (BaseError msg (CausedByValue err)), st3)))
                          else (Inr resp, st2)))))"

text \<open>
  \<^verbatim>\<open>uploadFile\<close>. \<open>rnd\<close> is the value that \<^verbatim>\<open>Math.random()\<close> returns inside
  \<^verbatim>\<open>NormalizeUtils.encode\<close>. The remote path is built before the \<^verbatim>\<open>try\<close> block.
\<close>

definition uploadFile ::
  "env \<Rightarrow> rat \<Rightarrow> jsstring \<Rightarrow> jsstring \<Rightarrow> jsstring \<Rightarrow> json \<Rightarrow> service
     \<Rightarrow> (js_error + json) \<times> service" where
  "uploadFile env rnd attachmentDir folderName file conflict st =
     (let fileName = last (split_slash file)
      in case encode rnd fileName of
           Inl e \<Rightarrow> (Inl e, st)
         | Inr encoded \<Rightarrow>
             (let urlFile = sharepointFolder st @ js '':/'' @ folderName @ js ''/'' @ encoded
                            @ js '':/content''
              in case uploadFile_try env urlFile attachmentDir file conflict st of
                   (Inr resp, st1) \<Rightarrow> (Inr resp, st1)
                 | (Inl error, st1) \<Rightarrow>
                     (Inl (BaseError (js ''Cannot upload a new file in '' @ urlFile) (CausedBy error)),
                      debug (js ''UploadFile'')
                        (LObj [(''urlFile'', LStr urlFile), (''error'', LErr error)]) st1)))"

section \<open>Notions used in the statements\<close>

text \<open>The characters that \<^verbatim>\<open>encodeRFC3986URIComponent\<close> leaves as they are: \<^verbatim>\<open>A-Z a-z 0-9 - _ . ~\<close>.\<close>

definition unreserved :: "jschar \<Rightarrow> bool" where
  "unreserved c \<longleftrightarrow>
     (0x41 \<le> c \<and> c \<le> 0x5A) \<or> (0x61 \<le> c \<and> c \<le> 0x7A) \<or> (0x30 \<le> c \<and> c \<le> 0x39)
     \<or> c \<in> {0x2D, 0x5F, 0x2E, 0x7E}"

text \<open>
  A name of such characters that does not begin with \<^verbatim>\<open>~\<close> or a period, does not end
  with a period and has no two periods in a row.
\<close>

definition plain_name :: "jsstring \<Rightarrow> bool" where
  "plain_name s \<longleftrightarrow>
     list_all unreserved s
     \<and> take 1 s \<noteq> js ''~'' \<and> take 1 s \<noteq> js ''.'' \<and> take 1 (rev s) \<noteq> js ''.''
     \<and> \<not> js_includes s (js ''..'')"

text \<open>\<open>s\<close> matches \<^verbatim>\<open>^R[0-9]+$\<close>, for a literal name \<open>R\<close>.\<close>

definition name_with_digits :: "jsstring \<Rightarrow> jsstring \<Rightarrow> bool" where
  "name_with_digits R s \<longleftrightarrow>
     take (length R) s = R \<and> drop (length R) s \<noteq> [] \<and> list_all is_digit (drop (length R) s)"

text \<open>The number that a string of decimal digits denotes.\<close>

definition dec_value :: "jsstring \<Rightarrow> nat" where
  "dec_value s = foldl (\<lambda>a c. 10 * a + (unat c - 48)) 0 s"

text \<open>
  \<^verbatim>\<open>decode(encode(s))\<close>; \<open>rnd1\<close> and \<open>rnd2\<close> are the values of \<^verbatim>\<open>Math.random()\<close> in
  the two calls.
\<close>

definition decode_of_encode :: "rat \<Rightarrow> rat \<Rightarrow> jsstring \<Rightarrow> js_error + jsstring" where
  "decode_of_encode rnd1 rnd2 s =
     (case encode rnd1 s of Inl e \<Rightarrow> Inl e | Inr t \<Rightarrow> decode rnd2 t)"

text \<open>
  The answer to a request makes the attempt fail with an error that is neither an
  authorization failure nor the ignorable one: the request is rejected, or the status is
  not 401 and the body is not JSON, or reading \<^verbatim>\<open>error\<close> or \<^verbatim>\<open>message\<close> throws, or the
  payload has a truthy \<^verbatim>\<open>error\<close> whose message is not matched by the IO-error pattern.
\<close>

definition failed_attempt :: "js_error + response \<Rightarrow> bool" where
  "failed_attempt outcome =
     (case outcome of
        Inl e \<Rightarrow> True
      | Inr r \<Rightarrow>
          r_status r \<noteq> 401 \<and>
          (case r_json r of
             Inl e \<Rightarrow> True
           | Inr payload \<Rightarrow>
               (case get_prop payload (js ''error'') of
                  Inl e \<Rightarrow> True
                | Inr err \<Rightarrow>
                    truthy err \<and>
                    (case get_prop err (js ''message'') of
                       Inl e \<Rightarrow> True
                     | Inr m \<Rightarrow> test_io_error m \<noteq> Inr True))))"

text \<open>The request that \<^verbatim>\<open>#requestGraphApi\<close> passes to \<^verbatim>\<open>fetch\<close> for a bearer token.\<close>

definition graphRequest :: "api_request \<Rightarrow> jsstring \<Rightarrow> fetch_request" where
  "graphRequest rq token =
     apiRequest (msGraphUrl @ rq_url rq) (rq_method rq) (rq_body rq) (rq_headers rq) token"

text \<open>The error that \<^verbatim>\<open>uploadFile\<close> throws from its \<^verbatim>\<open>catch\<close> block, for a remote path.\<close>

definition upload_error :: "jsstring \<Rightarrow> js_error \<Rightarrow> bool" where
  "upload_error urlFile e =
     (case e of
        BaseError message (CausedBy cause) \<Rightarrow> message = js ''Cannot upload a new file in '' @ urlFile
      | _ \<Rightarrow> False)"

text \<open>The remote path \<^verbatim>\<open>urlFile\<close> of \<^verbatim>\<open>uploadFile\<close>, for an encoded file name.\<close>

definition remotePath :: "service \<Rightarrow> jsstring \<Rightarrow> jsstring \<Rightarrow> jsstring" where
  "remotePath st folderName encoded =
     sharepointFolder st @ js '':/'' @ folderName @ js ''/'' @ encoded @ js '':/content''"


text \<open>The request with which \<^verbatim>\<open>#refreshToken\<close> asks for new tokens.\<close>

definition refreshRequest :: "service \<Rightarrow> jsstring \<Rightarrow> fetch_request" where
  "refreshRequest st token = tokenRequest st (js ''refresh_token'') (js ''refresh_token'') token"

section \<open>Concrete inputs\<close>

text \<open>Services, requests and worlds on which the theorems below are exercised.\<close>

definition params_bool :: params where
  "params_bool =
     \<lparr> p_domain = Some (js ''contoso''), p_client = Some (js ''id''), p_secret = Some (js ''s3''),
       p_token = Some (js ''old''), p_sharepointFolder = None, p_sharepointFolderUrl = None,
       p_debug = JUndefined, p_logToken = JBool True \<rparr>"

definition service_bool :: service where
  "service_bool =
     \<lparr> msDomain = Some (js ''contoso''), msClientId = js ''id'', msClientSecret = js ''s3'',
       msCode = JNull, msAccessToken = JStr (js ''old''), msRefreshToken = JNull,
       sharepointFolder = js ''me/drive/root'', sharepointFolderUrl = js ''Shared Documents/'',
       isDebug = JBool False, shouldLogToken = False, console = [], fetched = [] \<rparr>"

definition tokens_new :: json where
  "tokens_new = JObj [(js ''access_token'', JStr (js ''new'')), (js ''refresh_token'', JStr (js ''r2''))]"

definition io_payload :: json where
  "io_payload =
     JObj [(js ''error'',
            JObj [(js ''code'', JStr (js ''generalException'')),
                  (js ''message'', JStr (js ''IO error during request payload read.''))])]"

definition env_io :: env where
  "env_io =
     \<lparr> net = (\<lambda>n req. Inr \<lparr> r_url = fr_url req, r_status = 200, r_statusText = js ''OK'',
                             r_json = Inr io_payload \<rparr>),
       file_exists = (\<lambda>path. False),
       read_file = (\<lambda>path. Inl (SystemError (js ''ENOENT''))) \<rparr>"

definition env_io_late :: env where
  "env_io_late =
     \<lparr> net = (\<lambda>n req.
          if n = 0 then Inl TypeError
          else Inr \<lparr> r_url = fr_url req, r_status = 200, r_statusText = js ''OK'',
                     r_json = Inr io_payload \<rparr>),
       file_exists = (\<lambda>path. False),
       read_file = (\<lambda>path. Inl (SystemError (js ''ENOENT''))) \<rparr>"

definition rq_me :: api_request where
  "rq_me = \<lparr> rq_url = js ''me'', rq_method = js ''GET'', rq_body = NoBody, rq_headers = [],
             rq_conflict = JUndefined \<rparr>"

definition env_flaky :: env where
  "env_flaky =
     \<lparr> net = (\<lambda>n req.
          if n = 0 then Inl TypeError
          else if n = 1 then
            Inr \<lparr> r_url = fr_url req, r_status = 500, r_statusText = js ''Internal Server Error'',
                  r_json = Inr (JObj [(js ''error'', JObj [(js ''message'', JStr (js ''boom''))])]) \<rparr>
          else
            Inr \<lparr> r_url = fr_url req, r_status = 502, r_statusText = js ''Bad Gateway'',
                  r_json = Inl SyntaxError \<rparr>),
       file_exists = (\<lambda>path. path = js ''/tmp/a.txt''),
       read_file = (\<lambda>path. if path = js ''/tmp/a.txt'' then Inr [0x68, 0x69]
                             else Inl (SystemError (js ''ENOENT''))) \<rparr>"




definition env_unreadable :: env where
  "env_unreadable =
     \<lparr> net = (\<lambda>n req. Inl TypeError),
       file_exists = (\<lambda>path. True),
       read_file = (\<lambda>path. Inl (SystemError (js ''EACCES''))) \<rparr>"

definition env_upload_ok :: env where
  "env_upload_ok =
     \<lparr> net = (\<lambda>n req. Inr \<lparr> r_url = fr_url req, r_status = 201, r_statusText = js ''Created'',
                             r_json = Inr (JObj [(js ''id'', JStr (js ''01AB''))]) \<rparr>),
       file_exists = (\<lambda>path. path = js ''/tmp/a.txt''),
       read_file = (\<lambda>path. if path = js ''/tmp/a.txt'' then Inr [0x68, 0x69]
                             else Inl (SystemError (js ''ENOENT''))) \<rparr>"

section \<open>Properties of the name normalizer\<close>

subsection \<open>The characters of a normalized name\<close>

lemma set_link_body: "link_body s = Some r \<Longrightarrow> set r \<subseteq> set s"
  by (auto simp: link_body_def split: list.splits if_splits dest: set_dropWhileD)

lemma set_match_link: "match_link s = Some r \<Longrightarrow> set r \<subseteq> set s"
  by (auto simp: match_link_def split: if_splits dest!: set_link_body dest: in_set_dropD)

lemma set_removeLinks: "set (removeLinks s) \<subseteq> set s"
proof (induction s rule: removeLinks.induct)
  case 1
  show ?case by simp
next
  case (2 c cs)
  show ?case
  proof (cases "match_link (c # cs)")
    case None
    with 2 show ?thesis by auto
  next
    case (Some rest)
    with 2 set_match_link [OF Some] show ?thesis by auto
  qed
qed

lemma set_remove_all: "set (remove_all P s) = {c \<in> set s. \<not> P c}"
  by (simp add: remove_all_def)

lemma set_replace_all: "set (replace_all x r s) \<subseteq> (set s - {x}) \<union> set r"
  by (auto simp: replace_all_def split: if_splits)

lemma set_replace_first_run: "set (replace_first_run P r s) \<subseteq> set s \<union> set r"
  by (induction s) (auto dest: set_dropWhileD)

lemma set_strip_leading_tilde: "set (strip_leading_tilde s) \<subseteq> set s"
  by (auto simp: strip_leading_tilde_def split: list.splits)

lemma set_strip_edge_period: "set (strip_edge_period s) \<subseteq> set s"
  by (auto simp: strip_edge_period_def split: list.splits if_splits dest: in_set_butlastD)

lemma set_trim: "set (trim s) \<subseteq> set s"
  by (auto simp: trim_def dest!: set_dropWhileD)

lemma digit_of_nat: "n < 10 \<Longrightarrow> is_digit (of_nat (48 + n))"
proof -
  assume "n < 10"
  then have "n \<in> {0, 1, 2, 3, 4, 5, 6, 7, 8, 9}" by auto
  then show ?thesis by (auto simp: is_digit_def)
qed

lemma dec_digits: "list_all is_digit (dec n)"
proof (induction n rule: dec.induct)
  case (1 n)
  show ?case
  proof (cases "n < 10")
    case True
    then show ?thesis by (subst dec.simps) (simp del: of_nat_add add: digit_of_nat)
  next
    case False
    with 1 show ?thesis by (subst dec.simps) (simp del: of_nat_add add: digit_of_nat)
  qed
qed

lemma dec_nonempty: "dec n \<noteq> []"
  by (subst dec.simps) simp


lemma set_numberTxt: "set (numberTxt rnd) \<subseteq> Collect is_digit"
  using dec_digits [of "nat \<lfloor>double_times rnd 1000 + 1 / 2\<rfloor>"]
  by (auto simp: numberTxt_def toFixed0_def list_all_iff)

lemma set_replaceOutlookInvalidNames:
  "set (replaceOutlookInvalidNames rnd s) \<subseteq> set s \<union> set (js ''vti'') \<union> Collect is_digit"
  using set_numberTxt [of rnd] by (auto simp: replaceOutlookInvalidNames_def)

lemma set_normalizedTxt:
  "set (normalizedTxt text) \<subseteq> {c \<in> set text. \<not> forbidden c \<and> c \<noteq> 0x0A} \<union> set (js '' -and.'')"
proof -
  let ?a = "removeLinks text"
  let ?b = "remove_all forbidden (remove_all (\<lambda>c. c = 0x2A) ?a)"
  let ?c = "replace_all 0x0A (js '' - '') (remove_all (\<lambda>c. c = 0x0D \<or> c = 0x09) ?b)"
  let ?d = "replace_first_run (\<lambda>c. c = 0x2E) (js ''.'') (replace_all 0x26 (js ''and'') ?c)"
  let ?e = "replace_first_run is_space (js '' '') (strip_edge_period (strip_leading_tilde ?d))"
  let ?G = "{c \<in> set text. \<not> forbidden c \<and> c \<noteq> 0x0A} \<union> set (js '' -and.'')"
  have b: "set ?b \<subseteq> {c \<in> set text. \<not> forbidden c}"
    using set_removeLinks [of "text"] by (auto simp: set_remove_all)
  have c: "set ?c \<subseteq> ?G"
    using b set_replace_all [of "0x0A" "js '' - ''" "remove_all (\<lambda>c. c = 0x0D \<or> c = 0x09) ?b"]
    by (auto simp: set_remove_all js_def)
  have d: "set ?d \<subseteq> ?G"
    using c set_replace_first_run [of "\<lambda>c. c = 0x2E" "js ''.''" "replace_all 0x26 (js ''and'') ?c"]
      set_replace_all [of "0x26" "js ''and''" ?c]
    by (auto simp: js_def)
  have e: "set ?e \<subseteq> ?G"
    using d set_replace_first_run [of is_space "js '' ''" "strip_edge_period (strip_leading_tilde ?d)"]
      set_strip_edge_period [of "strip_leading_tilde ?d"] set_strip_leading_tilde [of ?d]
    by (auto simp: js_def)
  show ?thesis
    unfolding normalizedTxt_def using e set_trim [of ?e] by blast
qed

lemma normalize_text_chars:
  "set (normalize_text rnd text)
     \<subseteq> {c \<in> set text. \<not> forbidden c \<and> c \<noteq> 0x0A} \<union> set (js '' -and.vti'') \<union> Collect is_digit"
  using set_normalizedTxt [of "text"] set_replaceOutlookInvalidNames [of rnd "normalizedTxt text"]
  by (auto simp: normalize_text_def js_def)

lemma normalize_text_clean:
  "c \<in> set (normalize_text rnd text) \<Longrightarrow> \<not> forbidden c \<and> c \<noteq> 0x0A"
  using normalize_text_chars [of rnd "text"]
  by (auto simp: js_def forbidden_def is_digit_def)

lemma decodeURIComponent_plain: "0x25 \<notin> set s \<Longrightarrow> decodeURIComponent s = Inr s"
  by (induction s) (auto simp: prepend_def)

lemma decodeURIComponent_normalize_text:
  "decodeURIComponent (normalize_text rnd text) = Inr (normalize_text rnd text)"
proof -
  have "0x25 \<notin> set (normalize_text rnd text)"
    using normalize_text_clean [of "0x25" rnd "text"] by (auto simp: forbidden_def)
  then show ?thesis by (rule decodeURIComponent_plain)
qed

text \<open>
  C5: for every input text, the normalized name contains none of the characters
  \<^verbatim>\<open>" { } * : < > ? / % + |\<close> and no newline. The set below lists their codes, in
  this order, with the newline last.
\<close>

theorem normalize_text_no_forbidden:
  "set (normalize_text rnd text)
     \<inter> {0x22, 0x7B, 0x7D, 0x2A, 0x3A, 0x3C, 0x3E, 0x3F, 0x2F, 0x25, 0x2B, 0x7C, 0x0A} = {}"
  using normalize_text_clean [of _ rnd "text"] by (auto simp: forbidden_def)

text \<open>
  C9: for every input text, \<^verbatim>\<open>decode(text)\<close> returns \<^verbatim>\<open>normalize(text)\<close>: the
  normalized name has no \<^verbatim>\<open>%\<close> left, so there is no escape to decode (and no
  URIError to throw).
\<close>

theorem decode_is_normalize_text:
  "decode rnd text = Inr (normalize_text rnd text)"
  unfolding decode_def by (rule decodeURIComponent_normalize_text)

subsection \<open>Names that normalization leaves alone\<close>

lemma unreserved_facts:
  "unreserved c \<Longrightarrow> \<not> forbidden c \<and> \<not> is_space c \<and> c \<noteq> 0x0D \<and> c \<noteq> 0x09
     \<and> c \<noteq> 0x0A \<and> c \<noteq> 0x26 \<and> c \<noteq> 0x3A \<and> c \<noteq> 0x25 \<and> c \<noteq> 0x2A \<and> uri_unescaped c
     \<and> c \<notin> {0x21, 0x27, 0x28, 0x29, 0x2A}"
  unfolding unreserved_def forbidden_def is_space_def uri_unescaped_def
  by (elim disjE) (auto simp: word_le_nat_alt)

lemma match_link_no_colon: "0x3A \<notin> set s \<Longrightarrow> match_link s = None"
proof -
  assume n: "0x3A \<notin> set s"
  have "take 8 s \<noteq> js ''https://''"
  proof
    assume "take 8 s = js ''https://''"
    then have "0x3A \<in> set (take 8 s)" by (simp add: js_def)
    with n show False by (blast dest: in_set_takeD)
  qed
  moreover have "take 7 s \<noteq> js ''http://''"
  proof
    assume "take 7 s = js ''http://''"
    then have "0x3A \<in> set (take 7 s)" by (simp add: js_def)
    with n show False by (blast dest: in_set_takeD)
  qed
  ultimately show ?thesis by (simp add: match_link_def)
qed

lemma removeLinks_id: "0x3A \<notin> set s \<Longrightarrow> removeLinks s = s"
proof (induction s)
  case Nil
  show ?case by simp
next
  case (Cons c cs)
  then show ?case using match_link_no_colon [of "c # cs"] by simp
qed

lemma remove_all_id: "\<forall>c \<in> set s. \<not> P c \<Longrightarrow> remove_all P s = s"
  by (simp add: remove_all_def)

lemma replace_all_id: "x \<notin> set s \<Longrightarrow> replace_all x r s = s"
  by (induction s) (auto simp: replace_all_def)

lemma collapse_periods_id:
  "\<not> js_includes s (js ''..'') \<Longrightarrow> replace_first_run (\<lambda>c. c = 0x2E) (js ''.'') s = s"
proof (induction s)
  case Nil
  show ?case by simp
next
  case (Cons c cs)
  then show ?case by (cases cs) (auto simp: js_def)
qed

lemma strip_leading_tilde_id: "take 1 s \<noteq> js ''~'' \<Longrightarrow> strip_leading_tilde s = s"
  by (cases s) (auto simp: strip_leading_tilde_def js_def)

lemma strip_edge_period_id:
  "take 1 s \<noteq> js ''.'' \<Longrightarrow> take 1 (rev s) \<noteq> js ''.'' \<Longrightarrow> strip_edge_period s = s"
proof (cases s rule: rev_cases)
  case Nil
  then show ?thesis by (simp add: strip_edge_period_def)
next
  case (snoc ys y)
  assume "take 1 s \<noteq> js ''.''" and "take 1 (rev s) \<noteq> js ''.''"
  with snoc show ?thesis
    by (cases ys) (auto simp: strip_edge_period_def js_def)
qed

lemma replace_first_run_id: "\<forall>c \<in> set s. \<not> P c \<Longrightarrow> replace_first_run P r s = s"
  by (induction s) auto

lemma dropWhile_none: "\<forall>c \<in> set s. \<not> P c \<Longrightarrow> dropWhile P s = s"
  by (cases s) auto

lemma trim_id: "\<forall>c \<in> set s. \<not> is_space c \<Longrightarrow> trim s = s"
  by (simp add: trim_def dropWhile_none)

lemma normalizedTxt_plain:
  assumes "plain_name s"
  shows "normalizedTxt s = s"
proof -
  from assms have u: "\<forall>c \<in> set s. unreserved c"
    by (simp add: plain_name_def list_all_iff)
  have a: "removeLinks s = s"
    using u unreserved_facts by (intro removeLinks_id) blast
  have b: "remove_all (\<lambda>c. c = 0x2A) s = s" "remove_all forbidden s = s"
    "remove_all (\<lambda>c. c = 0x0D \<or> c = 0x09) s = s"
    using u unreserved_facts by (auto intro!: remove_all_id)
  have c: "replace_all 0x0A (js '' - '') s = s" "replace_all 0x26 (js ''and'') s = s"
    using u unreserved_facts by (auto intro!: replace_all_id)
  have d: "replace_first_run (\<lambda>c. c = 0x2E) (js ''.'') s = s"
    using assms by (simp add: plain_name_def collapse_periods_id)
  have e: "strip_leading_tilde s = s" "strip_edge_period s = s"
    using assms by (simp_all add: plain_name_def strip_leading_tilde_id strip_edge_period_id)
  have f: "replace_first_run is_space (js '' '') s = s" "trim s = s"
    using u unreserved_facts by (auto intro!: replace_first_run_id trim_id)
  show ?thesis
    unfolding normalizedTxt_def by (simp only: a b c d e f)
qed

lemma invalidNames_list:
  "invalidNames =
     [js ''.lock'', js ''CON'', js ''PRN'', js ''AUX'', js ''NUL'', js ''_vti_'', js ''desktop.ini'',
      js ''COM0'', js ''COM1'', js ''COM2'', js ''COM3'', js ''COM4'', js ''COM5'', js ''COM6'',
      js ''COM7'', js ''COM8'', js ''COM9'',
      js ''LPT0'', js ''LPT1'', js ''LPT2'', js ''LPT3'', js ''LPT4'', js ''LPT5'', js ''LPT6'',
      js ''LPT7'', js ''LPT8'', js ''LPT9'']"
  by (simp add: invalidNames_def js_def dec.simps upt_rec)

lemma reserved_plain: "list_all (\<lambda>R. R = js ''.lock'' \<or> plain_name R) invalidNames"
  unfolding invalidNames_list
  by (simp add: plain_name_def js_def unreserved_def)

lemma reserved_no_vti:
  "list_all (\<lambda>R. R = js ''_vti_'' \<or> \<not> js_includes R (js ''_vti_'')) invalidNames"
  unfolding invalidNames_list by (simp add: js_def)

lemma numberTxt_digits: "list_all is_digit (numberTxt rnd)" "numberTxt rnd \<noteq> []"
  by (simp_all add: numberTxt_def toFixed0_def dec_digits dec_nonempty)

lemma normalize_reserved:
  assumes "R \<in> set invalidNames" and "R \<noteq> js ''.lock''" and "R \<noteq> js ''_vti_''"
  shows "normalize_text rnd R = R @ numberTxt rnd"
proof -
  from assms reserved_plain have "normalizedTxt R = R"
    by (auto simp: list_all_iff intro: normalizedTxt_plain)
  moreover from assms reserved_no_vti have "\<not> js_includes R (js ''_vti_'')"
    by (auto simp: list_all_iff)
  ultimately show ?thesis
    using assms(1) by (simp add: normalize_text_def replaceOutlookInvalidNames_def)
qed

lemma normalize_vti: "normalize_text rnd (js ''_vti_'') = js ''vti'' @ numberTxt rnd"
proof -
  have "plain_name (js ''_vti_'')"
    by (simp add: plain_name_def js_def unreserved_def)
  then have "normalizedTxt (js ''_vti_'') = js ''_vti_''"
    by (rule normalizedTxt_plain)
  then show ?thesis
    by (simp add: normalize_text_def replaceOutlookInvalidNames_def) (simp add: js_def)
qed

lemma normalizedTxt_lock: "normalizedTxt (js ''.lock'') = js ''lock''"
proof -
  have "removeLinks (js ''.lock'') = js ''.lock''"
    by (rule removeLinks_id) (simp add: js_def)
  then show ?thesis
    unfolding normalizedTxt_def
    by (simp add: js_def remove_all_def forbidden_def replace_all_def strip_leading_tilde_def
        strip_edge_period_def trim_def is_space_def)
qed

lemma normalize_lock: "normalize_text rnd (js ''.lock'') = js ''lock''"
  unfolding normalize_text_def normalizedTxt_lock replaceOutlookInvalidNames_def invalidNames_list
  by (simp add: js_def)

lemma name_with_digits_append: "name_with_digits R (R @ numberTxt rnd)"
  by (simp add: name_with_digits_def numberTxt_digits)

text \<open>
  C3 (amended): for each reserved name \<open>R\<close> other than \<^verbatim>\<open>.lock\<close> and \<^verbatim>\<open>_vti_\<close>,
  \<^verbatim>\<open>normalize(R)\<close> matches \<^verbatim>\<open>^R[0-9]+$\<close>; \<^verbatim>\<open>normalize('_vti_')\<close> matches
  \<^verbatim>\<open>^vti[0-9]+$\<close>; and \<^verbatim>\<open>normalize('.lock')\<close> is \<^verbatim>\<open>lock\<close>, without a suffix, because
  the leading period is stripped before the reserved names are looked up.
\<close>

theorem reserved_names_suffixed:
  "(\<forall>R \<in> set invalidNames. R \<noteq> js ''.lock'' \<longrightarrow> R \<noteq> js ''_vti_''
       \<longrightarrow> name_with_digits R (normalize_text rnd R))
   \<and> name_with_digits (js ''vti'') (normalize_text rnd (js ''_vti_''))
   \<and> normalize_text rnd (js ''.lock'') = js ''lock''"
  by (simp add: normalize_reserved normalize_vti normalize_lock name_with_digits_append)

theorem reserved_names_suffixed_witness:
  "js ''COM7'' \<in> set invalidNames
   \<and> name_with_digits (js ''COM7'') (normalize_text (1 / 3) (js ''COM7''))
   \<and> name_with_digits (js ''vti'') (normalize_text (1 / 3) (js ''_vti_''))"
proof -
  have m: "js ''COM7'' \<in> set invalidNames"
    by (simp add: invalidNames_list)
  have "name_with_digits (js ''COM7'') (normalize_text (1 / 3) (js ''COM7''))"
    using reserved_names_suffixed [of "1 / 3", THEN conjunct1, THEN bspec, OF m]
    by (simp add: js_def)
  then show ?thesis using m reserved_names_suffixed [of "1 / 3"] by simp
qed

text \<open>
  C3 as stated fails at the reserved name \<^verbatim>\<open>.lock\<close>: its normalized form is \<^verbatim>\<open>lock\<close>,
  which does not match \<^verbatim>\<open>^\.lock[0-9]+$\<close>.
\<close>

theorem lock_counterexample:
  "js ''.lock'' \<in> set invalidNames
   \<and> normalize_text 0 (js ''.lock'') = js ''lock''
   \<and> \<not> name_with_digits (js ''.lock'') (normalize_text 0 (js ''.lock''))"
  by (simp add: normalize_lock invalidNames_list name_with_digits_def) (simp add: js_def)

subsection \<open>The random suffix\<close>

lemma unat_digit: "unat (of_nat (48 + n mod 10) :: jschar) = 48 + n mod 10"
proof -
  have "unat (of_nat (48 + n mod 10) :: jschar) = (48 + n mod 10) mod 2 ^ LENGTH(16)"
    by (rule unat_of_nat)
  also have "\<dots> = 48 + n mod 10" by simp
  finally show ?thesis .
qed

lemma dec_value_snoc: "dec_value (s @ [c]) = 10 * dec_value s + (unat c - 48)"
  by (simp add: dec_value_def)

lemma dec_value_dec: "dec_value (dec n) = n"
proof (induction n rule: dec.induct)
  case (1 n)
  show ?case
  proof (cases "n < 10")
    case True
    then have "dec n = [of_nat (48 + n mod 10)]" by (subst dec.simps) simp
    then show ?thesis using True by (simp only: dec_value_def foldl.simps unat_digit) simp
  next
    case False
    then have "dec n = dec (n div 10) @ [of_nat (48 + n mod 10)]" by (subst dec.simps) simp
    then show ?thesis using False 1 by (simp only: dec_value_snoc unat_digit) simp
  qed
qed

lemma round_half_even_le: "x \<le> of_int N \<Longrightarrow> round_half_even x \<le> N"
proof -
  assume a: "x \<le> of_int N"
  have f: "\<lfloor>x\<rfloor> \<le> N" using a by (simp add: floor_le_iff)
  show ?thesis
  proof (cases "x = of_int \<lfloor>x\<rfloor>")
    case True
    then have "x - of_int \<lfloor>x\<rfloor> < 1 / 2" by simp
    then show ?thesis using f by (simp add: round_half_even_def Let_def)
  next
    case False
    then have "of_int \<lfloor>x\<rfloor> < x" using of_int_floor_le [of x] by linarith
    with a have "of_int \<lfloor>x\<rfloor> < (of_int N :: rat)" by linarith
    then have "\<lfloor>x\<rfloor> < N" by simp
    then show ?thesis by (simp add: round_half_even_def Let_def)
  qed
qed

lemma round_half_even_ge: "0 \<le> x \<Longrightarrow> 0 \<le> round_half_even x"
  by (auto simp: round_half_even_def Let_def)

lemma to_double_from_shape:
  "\<exists>j. to_double_from k x = of_int (round_half_even (x * 2 ^ j)) / 2 ^ j"
proof (induction k x rule: to_double_from.induct)
  case (1 k x)
  show ?case
  proof (cases "2 ^ 52 \<le> x * 2 ^ k \<or> 1074 \<le> k")
    case True
    then have "to_double_from k x = of_int (round_half_even (x * 2 ^ k)) / 2 ^ k"
      by (subst to_double_from.simps) simp
    then show ?thesis by blast
  next
    case False
    then have "to_double_from k x = to_double_from (k + 1) x"
      by (subst to_double_from.simps) simp
    with 1 False show ?thesis by simp
  qed
qed

lemma to_double_le:
  assumes "x \<le> of_int N"
  shows "to_double x \<le> of_int N"
proof -
  from to_double_from_shape [of 43 x] obtain j where
    j: "to_double x = of_int (round_half_even (x * 2 ^ j)) / 2 ^ j"
    by (auto simp: to_double_def)
  have "x * 2 ^ j \<le> of_int (N * 2 ^ j)" using assms by simp
  then have "round_half_even (x * 2 ^ j) \<le> N * 2 ^ j" by (rule round_half_even_le)
  then have "(of_int (round_half_even (x * 2 ^ j)) :: rat) \<le> of_int (N * 2 ^ j)"
    by (simp only: of_int_le_iff)
  then have "(of_int (round_half_even (x * 2 ^ j)) :: rat) / 2 ^ j \<le> of_int N"
    by (simp add: divide_le_eq)
  with j show ?thesis by simp
qed

lemma to_double_ge:
  assumes "0 \<le> x"
  shows "0 \<le> to_double x"
proof -
  from to_double_from_shape [of 43 x] obtain j where
    j: "to_double x = of_int (round_half_even (x * 2 ^ j)) / 2 ^ j"
    by (auto simp: to_double_def)
  have "0 \<le> x * 2 ^ j" using assms by simp
  then have "0 \<le> round_half_even (x * 2 ^ j)" by (rule round_half_even_ge)
  with j show ?thesis by simp
qed

lemma suffix_bound:
  fixes rnd :: rat
  assumes "0 \<le> rnd" and "rnd < 1"
  shows "nat \<lfloor>double_times rnd 1000 + 1 / 2\<rfloor> \<le> 1000"
proof -
  from assms have "rnd * 1000 \<le> of_int 1000" by simp
  then have "double_times rnd 1000 \<le> of_int 1000"
    unfolding double_times_def by (rule to_double_le)
  then have "double_times rnd 1000 + 1 / 2 < of_int 1001" by simp
  then have "\<lfloor>double_times rnd 1000 + 1 / 2\<rfloor> < 1001" by (simp only: floor_less_iff)
  then show ?thesis by linarith
qed

text \<open>
  C8 (amended): for every value \<open>0 \<le> rnd < 1\<close> of \<^verbatim>\<open>Math.random()\<close>, the suffix is a
  non-empty string of decimal digits whose value lies between 0 and 1000 inclusive: the
  product, rounded to a double, is at most 1000, and \<^verbatim>\<open>toFixed(0)\<close> rounds it to the
  nearest integer. It is this suffix that is put behind \<^verbatim>\<open>vti\<close> for an input containing
  \<^verbatim>\<open>_vti_\<close> and behind a reserved name.
\<close>

theorem random_suffix_range:
  assumes "0 \<le> rnd" and "rnd < 1"
  shows "numberTxt rnd \<noteq> [] \<and> list_all is_digit (numberTxt rnd)
         \<and> dec_value (numberTxt rnd) \<le> 1000
         \<and> (js_includes str (js ''_vti_'')
              \<longrightarrow> replaceOutlookInvalidNames rnd str = js ''vti'' @ numberTxt rnd)
         \<and> (\<not> js_includes str (js ''_vti_'') \<longrightarrow> str \<in> set invalidNames
              \<longrightarrow> replaceOutlookInvalidNames rnd str = str @ numberTxt rnd)"
  using suffix_bound [OF assms]
  by (simp add: numberTxt_digits replaceOutlookInvalidNames_def)
     (simp add: numberTxt_def toFixed0_def dec_value_dec)

lemma double_high: "double_times (2047 / 2048) 1000 = 255875 / 256"
  by (simp add: double_times_def to_double_def to_double_from.simps round_half_even_def)

lemma double_eighth: "double_times (1 / 8) 1000 = 125"
  by (simp add: double_times_def to_double_def to_double_from.simps round_half_even_def)

lemma double_tie: "double_times (5188146770730811 / 2 ^ 60) 1000 = 9 / 2"
proof -
  have "\<lfloor>(648518346341351375 / 128 :: rat)\<rfloor> = 5066549580791807"
    by (rule floor_unique) simp_all
  then show ?thesis
    by (simp add: double_times_def to_double_def to_double_from.simps round_half_even_def Let_def)
qed

lemma numberTxt_high: "numberTxt (2047 / 2048) = js ''1000''"
proof -
  have "\<lfloor>(255875 / 256 :: rat) + 1 / 2\<rfloor> = 1000"
    by (rule floor_unique) simp_all
  then show ?thesis
    unfolding numberTxt_def toFixed0_def double_high by (simp add: dec.simps js_def)
qed

lemma numberTxt_eighth: "numberTxt (1 / 8) = js ''125''"
proof -
  have "\<lfloor>(125 :: rat) + 1 / 2\<rfloor> = 125"
    by (rule floor_unique) simp_all
  then show ?thesis
    unfolding numberTxt_def toFixed0_def double_eighth by (simp add: dec.simps js_def)
qed

text \<open>
  The product is rounded before \<^verbatim>\<open>toFixed\<close> sees it: the double nearest to 0.0045 is
  below 0.0045, but its product with 1000 is the double 4.5, which prints as 5.
\<close>

lemma numberTxt_tie: "numberTxt (5188146770730811 / 2 ^ 60) = js ''5''"
proof -
  have "\<lfloor>(9 / 2 :: rat) + 1 / 2\<rfloor> = 5"
    by (rule floor_unique) simp_all
  then show ?thesis
    unfolding numberTxt_def toFixed0_def double_tie by (simp add: dec.simps js_def)
qed

theorem random_suffix_range_witness:
  "(0 :: rat) \<le> 1 / 8 \<and> (1 / 8 :: rat) < 1
   \<and> list_all is_digit (numberTxt (1 / 8))
   \<and> dec_value (numberTxt (1 / 8)) \<le> 1000
   \<and> replaceOutlookInvalidNames (1 / 8) (js ''AUX'') = js ''AUX125''
   \<and> replaceOutlookInvalidNames (1 / 8) (js ''a_vti_b'') = js ''vti125''"
proof -
  note n = numberTxt_eighth
  have a: "\<not> js_includes (js ''AUX'') (js ''_vti_'')" "js ''AUX'' \<in> set invalidNames"
    "js_includes (js ''a_vti_b'') (js ''_vti_'')"
    by (simp_all add: js_def invalidNames_list)
  show ?thesis
    using random_suffix_range [of "1 / 8" "js ''AUX''"]
      random_suffix_range [of "1 / 8" "js ''a_vti_b''"] a
    by (simp add: n) (simp add: js_def)
qed

text \<open>
  C8 as stated fails when \<^verbatim>\<open>Math.random()\<close> returns \<open>2047 / 2048\<close>: the product
  \<open>999.51171875\<close> is rounded to \<open>1000\<close>, outside the interval \<open>[0, 1000)\<close>.
\<close>

theorem random_suffix_counterexample:
  "(0 :: rat) \<le> 2047 / 2048 \<and> (2047 / 2048 :: rat) < 1
   \<and> js ''CON'' \<in> set invalidNames
   \<and> replaceOutlookInvalidNames (2047 / 2048) (js ''CON'') = js ''CON1000''
   \<and> numberTxt (2047 / 2048) = js ''1000''
   \<and> \<not> dec_value (numberTxt (2047 / 2048)) < 1000"
  by (simp add: numberTxt_high replaceOutlookInvalidNames_def invalidNames_list)
     (simp add: js_def dec_value_def)

subsection \<open>Encoding and decoding\<close>

lemma encodeURIComponent_id: "\<forall>c \<in> set s. uri_unescaped c \<Longrightarrow> encodeURIComponent s = Inr s"
  by (induction s) (auto simp: prepend_def)

lemma encodeRFC3986URIComponent_id:
  assumes "\<forall>c \<in> set s. unreserved c"
  shows "encodeRFC3986URIComponent s = Inr s"
proof -
  have "encodeURIComponent s = Inr s"
    using assms unreserved_facts by (intro encodeURIComponent_id) blast
  moreover have "concat (map (\<lambda>c. if c \<in> {0x21, 0x27, 0x28, 0x29, 0x2A}
                                 then 0x25 # to_hex_upper (unat c) else [c]) s) = s"
    using assms
  proof (induction s)
    case Nil
    show ?case by simp
  next
    case (Cons c cs)
    then have "c \<notin> {0x21, 0x27, 0x28, 0x29, 0x2A}" using unreserved_facts [of c] by simp
    with Cons show ?case by simp
  qed
  ultimately show ?thesis by (simp add: encodeRFC3986URIComponent_def)
qed

lemma normalize_text_plain:
  assumes "plain_name s" and "s \<notin> set invalidNames" and "\<not> js_includes s (js ''_vti_'')"
  shows "normalize_text rnd s = s"
  using assms by (simp add: normalize_text_def normalizedTxt_plain replaceOutlookInvalidNames_def)

lemma js_includes_set: "js_includes t p \<Longrightarrow> set p \<subseteq> set t"
proof (induction t)
  case Nil
  then show ?case by simp
next
  case (Cons c cs)
  from Cons.prems have "take (length p) (c # cs) = p \<or> js_includes cs p" by simp
  then show ?case
  proof
    assume "take (length p) (c # cs) = p"
    then have "set p = set (take (length p) (c # cs))" by simp
    then show ?thesis using set_take_subset [of "length p" "c # cs"] by blast
  next
    assume "js_includes cs p"
    then show ?thesis using Cons.IH by auto
  qed
qed

lemma js_includes_append_last:
  "js_includes (a @ b) p \<Longrightarrow> p \<noteq> [] \<Longrightarrow> last p \<notin> set b \<Longrightarrow> js_includes a p"
proof (induction a)
  case Nil
  then have "set p \<subseteq> set b" using js_includes_set [of b p] by simp
  with Nil show ?case using last_in_set [of p] by blast
next
  case (Cons c cs)
  define xs where "xs = c # cs"
  define k where "k = length p - length xs"
  from Cons.prems(1) have "take (length p) (xs @ b) = p \<or> js_includes (cs @ b) p"
    by (simp add: xs_def)
  then show ?case
  proof
    assume "take (length p) (xs @ b) = p"
    then have t: "take (length p) xs @ take k b = p"
      by (simp only: take_append k_def)
    show ?thesis
    proof (cases "length p \<le> length xs")
      case True
      then have "take (length p) xs = p" using t by (simp add: k_def)
      then show ?thesis by (simp add: xs_def)
    next
      case False
      then have p: "p = xs @ take k b" using t by simp
      then have "length p = length xs + length (take k b)" by (metis length_append)
      with False have "take k b \<noteq> []" by auto
      with p have "last p \<in> set (take k b)"
        by (metis last_appendR last_in_set)
      then show ?thesis using Cons.prems(3) by (blast dest: in_set_takeD)
    qed
  next
    assume "js_includes (cs @ b) p"
    then show ?thesis using Cons by simp
  qed
qed

lemma digit_not_underscore: "is_digit c \<Longrightarrow> c \<noteq> 0x5F"
  by (auto simp: is_digit_def word_le_nat_alt)

lemma reserved_ending_in_digit:
  "list_all (\<lambda>x. is_digit (last x)
       \<longrightarrow> length x = 4 \<and> (take 3 x = js ''COM'' \<or> take 3 x = js ''LPT'')) invalidNames"
  unfolding invalidNames_list by (simp add: js_def is_digit_def)

lemma reserved_length: "list_all (\<lambda>x. 3 \<le> length x) invalidNames"
  unfolding invalidNames_list by (simp add: js_def)

lemma com_lpt_free: "js ''COM'' \<notin> set invalidNames" "js ''LPT'' \<notin> set invalidNames"
  unfolding invalidNames_list by (simp_all add: js_def)

lemma reserved_append_fresh:
  assumes "R \<in> set invalidNames" and "ds \<noteq> []" and "list_all is_digit ds"
  shows "R @ ds \<notin> set invalidNames"
proof
  assume m: "R @ ds \<in> set invalidNames"
  have "is_digit (last (R @ ds))"
    using assms(2,3) by (simp add: list_all_iff)
  with m reserved_ending_in_digit
  have l: "length (R @ ds) = 4"
    and t: "take 3 (R @ ds) = js ''COM'' \<or> take 3 (R @ ds) = js ''LPT''"
    by (auto simp: list_all_iff)
  from assms(1) reserved_length have "3 \<le> length R" by (auto simp: list_all_iff)
  moreover from assms(2) have "1 \<le> length ds" by (cases ds) simp_all
  ultimately have "length R = 3" using l by simp
  then have "take 3 (R @ ds) = R" by simp
  with t assms(1) com_lpt_free show False by auto
qed

lemma vti_fresh: "js ''vti'' @ ds \<notin> set invalidNames"
  unfolding invalidNames_list by (simp add: js_def)

lemma normalize_text_fresh:
  "normalize_text rnd s \<notin> set invalidNames
   \<and> \<not> js_includes (normalize_text rnd s) (js ''_vti_'')"
proof -
  define u where "u = normalizedTxt s"
  define ds where "ds = numberTxt rnd"
  have d: "ds \<noteq> []" "list_all is_digit ds"
    by (simp_all add: ds_def numberTxt_digits)
  then have nu: "0x5F \<notin> set ds"
    using digit_not_underscore by (auto simp: list_all_iff)
  have p: "js ''_vti_'' \<noteq> []" "last (js ''_vti_'') = 0x5F"
    by (simp_all add: js_def)
  consider (vti) "js_includes u (js ''_vti_'')"
    | (reserved) "\<not> js_includes u (js ''_vti_'')" "u \<in> set invalidNames"
    | (other) "\<not> js_includes u (js ''_vti_'')" "u \<notin> set invalidNames"
    by blast
  then show ?thesis
  proof cases
    case vti
    then have t: "normalize_text rnd s = js ''vti'' @ ds"
      by (simp add: normalize_text_def replaceOutlookInvalidNames_def u_def ds_def)
    have "\<not> js_includes (js ''vti'' @ ds) (js ''_vti_'')"
    proof
      assume "js_includes (js ''vti'' @ ds) (js ''_vti_'')"
      then have "js_includes (js ''vti'') (js ''_vti_'')"
        using p nu by (intro js_includes_append_last [of "js ''vti''" ds]) simp_all
      then show False by (simp add: js_def)
    qed
    then show ?thesis using t vti_fresh by simp
  next
    case reserved
    then have t: "normalize_text rnd s = u @ ds"
      by (simp add: normalize_text_def replaceOutlookInvalidNames_def u_def ds_def)
    have "\<not> js_includes (u @ ds) (js ''_vti_'')"
    proof
      assume "js_includes (u @ ds) (js ''_vti_'')"
      then have "js_includes u (js ''_vti_'')"
        using p nu by (intro js_includes_append_last [of u ds]) simp_all
      with reserved(1) show False by simp
    qed
    then show ?thesis using t reserved_append_fresh [OF reserved(2) d] by simp
  next
    case other
    then have "normalize_text rnd s = u"
      by (simp add: normalize_text_def replaceOutlookInvalidNames_def u_def)
    with other show ?thesis by simp
  qed
qed

text \<open>
  C4 (amended): \<^verbatim>\<open>decode(encode(s))\<close> equals the normalized name \<^verbatim>\<open>normalize(s)\<close> that
  \<^verbatim>\<open>encode\<close> computed whenever that name has only characters that percent-encoding leaves
  alone (\<^verbatim>\<open>A-Z a-z 0-9 - _ . ~\<close>) and normalizing it once more changes nothing; in
  particular whenever it is a plain name: such characters only, no leading \<^verbatim>\<open>~\<close> or
  period, no trailing period, no two periods in a row. The conditions are on the
  normalized name, not on \<open>s\<close>: \<^verbatim>\<open>.test\<close>, \<^verbatim>\<open>R&D\<close> and the reserved names are covered.
\<close>

theorem decode_encode_roundtrip:
  "(list_all unreserved (normalize_text rnd1 s)
      \<and> normalize_text rnd2 (normalize_text rnd1 s) = normalize_text rnd1 s
      \<longrightarrow> decode_of_encode rnd1 rnd2 s = Inr (normalize_text rnd1 s))
   \<and> (plain_name (normalize_text rnd1 s)
      \<longrightarrow> decode_of_encode rnd1 rnd2 s = Inr (normalize_text rnd1 s))"
proof -
  define t where "t = normalize_text rnd1 s"
  have general: "decode_of_encode rnd1 rnd2 s = Inr t"
    if u: "list_all unreserved t" and i: "normalize_text rnd2 t = t"
  proof -
    from u have "encode rnd1 s = Inr t"
      by (simp add: encode_def t_def [symmetric] encodeRFC3986URIComponent_id list_all_iff)
    moreover have "decode rnd2 t = Inr t"
      using decodeURIComponent_normalize_text [of rnd2 t] by (simp add: decode_def i)
    ultimately show ?thesis by (simp add: decode_of_encode_def)
  qed
  moreover have "decode_of_encode rnd1 rnd2 s = Inr t" if p: "plain_name t"
  proof -
    from p have "list_all unreserved t" by (simp add: plain_name_def)
    moreover have "normalize_text rnd2 t = t"
      using p normalize_text_fresh [of rnd1 s] by (intro normalize_text_plain) (simp_all add: t_def)
    ultimately show ?thesis by (rule general)
  qed
  ultimately show ?thesis by (simp add: t_def)
qed


lemma normalizedTxt_dot_test: "normalizedTxt (js ''.test'') = js ''test''"
proof -
  have "removeLinks (js ''.test'') = js ''.test''"
    by (rule removeLinks_id) (simp add: js_def)
  then show ?thesis
    unfolding normalizedTxt_def
    by (simp add: js_def remove_all_def forbidden_def replace_all_def strip_leading_tilde_def
        strip_edge_period_def trim_def is_space_def)
qed

lemma normalizedTxt_r_and_d: "normalizedTxt (js ''R&D'') = js ''RandD''"
proof -
  have "removeLinks (js ''R&D'') = js ''R&D''"
    by (rule removeLinks_id) (simp add: js_def)
  then show ?thesis
    unfolding normalizedTxt_def
    by (simp add: js_def remove_all_def forbidden_def replace_all_def strip_leading_tilde_def
        strip_edge_period_def trim_def is_space_def)
qed

theorem decode_encode_roundtrip_witness:
  "plain_name (normalize_text (1 / 8) (js ''.test''))
   \<and> decode_of_encode (1 / 8) (1 / 3) (js ''.test'') = Inr (js ''test'')
   \<and> plain_name (normalize_text (1 / 8) (js ''R&D''))
   \<and> decode_of_encode (1 / 8) (1 / 3) (js ''R&D'') = Inr (js ''RandD'')
   \<and> plain_name (normalize_text (1 / 8) (js ''CON''))
   \<and> decode_of_encode (1 / 8) (1 / 3) (js ''CON'') = Inr (js ''CON125'')"
proof -
  have a: "normalize_text (1 / 8) (js ''.test'') = js ''test''"
    unfolding normalize_text_def normalizedTxt_dot_test replaceOutlookInvalidNames_def
      invalidNames_list
    by (simp add: js_def)
  have b: "normalize_text (1 / 8) (js ''R&D'') = js ''RandD''"
    unfolding normalize_text_def normalizedTxt_r_and_d replaceOutlookInvalidNames_def
      invalidNames_list
    by (simp add: js_def)
  have c: "normalize_text (1 / 8) (js ''CON'') = js ''CON125''"
    using normalize_reserved [of "js ''CON''" "1 / 8"]
    by (simp add: invalidNames_list numberTxt_eighth) (simp add: js_def)
  have p: "plain_name (js ''test'')" "plain_name (js ''RandD'')" "plain_name (js ''CON125'')"
    by (simp_all add: plain_name_def js_def unreserved_def)
  show ?thesis
    using decode_encode_roundtrip [of "1 / 8" "js ''.test''" "1 / 3"]
      decode_encode_roundtrip [of "1 / 8" "js ''R&D''" "1 / 3"]
      decode_encode_roundtrip [of "1 / 8" "js ''CON''" "1 / 3"] p
    by (simp add: a b c)
qed

lemma normalizedTxt_a_b: "normalizedTxt (js ''a b'') = js ''a b''"
proof -
  have "removeLinks (js ''a b'') = js ''a b''"
    by (rule removeLinks_id) (simp add: js_def)
  then show ?thesis
    unfolding normalizedTxt_def
    by (simp add: js_def remove_all_def forbidden_def replace_all_def strip_leading_tilde_def
        strip_edge_period_def trim_def is_space_def)
qed

lemma normalizedTxt_a20b: "normalizedTxt (js ''a%20b'') = js ''a20b''"
proof -
  have "removeLinks (js ''a%20b'') = js ''a%20b''"
    by (rule removeLinks_id) (simp add: js_def)
  then show ?thesis
    unfolding normalizedTxt_def
    by (simp add: js_def remove_all_def forbidden_def replace_all_def strip_leading_tilde_def
        strip_edge_period_def trim_def is_space_def)
qed

lemma normalizedTxt_dot_a_dot: "normalizedTxt (js ''.a.'') = js ''a.''"
proof -
  have "removeLinks (js ''.a.'') = js ''.a.''"
    by (rule removeLinks_id) (simp add: js_def)
  then show ?thesis
    unfolding normalizedTxt_def
    by (simp add: js_def remove_all_def forbidden_def replace_all_def strip_leading_tilde_def
        strip_edge_period_def trim_def is_space_def)
qed

lemma normalizedTxt_a_dot: "normalizedTxt (js ''a.'') = js ''a''"
proof -
  have "removeLinks (js ''a.'') = js ''a.''"
    by (rule removeLinks_id) (simp add: js_def)
  then show ?thesis
    unfolding normalizedTxt_def
    by (simp add: js_def remove_all_def forbidden_def replace_all_def strip_leading_tilde_def
        strip_edge_period_def trim_def is_space_def)
qed

lemma encodeRFC3986_a_b: "encodeRFC3986URIComponent (js ''a b'') = Inr (js ''a%20b'')"
  by (simp add: encodeRFC3986URIComponent_def js_def uri_unescaped_def prepend_def
      low_surrogate_def high_surrogate_def escape_cp_def utf8_def pct_def hex_digit_def)

text \<open>
  C4 as stated fails at \<^verbatim>\<open>'a b'\<close>, which has no forbidden character: \<^verbatim>\<open>encode\<close>
  escapes the space as \<^verbatim>\<open>%20\<close>, and \<^verbatim>\<open>decode\<close> normalizes before it decodes, which
  removes the \<^verbatim>\<open>%\<close> and leaves \<^verbatim>\<open>a20b\<close>. It also fails at \<^verbatim>\<open>'.a.'\<close>, where nothing is
  escaped: the second normalization strips the period that the first one left.
\<close>

theorem decode_encode_counterexample:
  "list_all (\<lambda>c. \<not> forbidden c) (js ''a b'')
   \<and> normalize_text 0 (js ''a b'') = js ''a b''
   \<and> encode 0 (js ''a b'') = Inr (js ''a%20b'')
   \<and> decode_of_encode 0 0 (js ''a b'') = Inr (js ''a20b'')
   \<and> decode_of_encode 0 0 (js ''a b'') \<noteq> Inr (normalize_text 0 (js ''a b''))
   \<and> list_all (\<lambda>c. \<not> forbidden c) (js ''.a.'')
   \<and> normalize_text 0 (js ''.a.'') = js ''a.''
   \<and> decode_of_encode 0 0 (js ''.a.'') = Inr (js ''a'')"
proof -
  have n1: "normalize_text 0 (js ''a b'') = js ''a b''"
    unfolding normalize_text_def normalizedTxt_a_b replaceOutlookInvalidNames_def invalidNames_list
    by (simp add: js_def)
  have n2: "normalize_text 0 (js ''a%20b'') = js ''a20b''"
    unfolding normalize_text_def normalizedTxt_a20b replaceOutlookInvalidNames_def invalidNames_list
    by (simp add: js_def)
  have n3: "normalize_text 0 (js ''.a.'') = js ''a.''"
    unfolding normalize_text_def normalizedTxt_dot_a_dot replaceOutlookInvalidNames_def
      invalidNames_list
    by (simp add: js_def)
  have n4: "normalize_text 0 (js ''a.'') = js ''a''"
    unfolding normalize_text_def normalizedTxt_a_dot replaceOutlookInvalidNames_def
      invalidNames_list
    by (simp add: js_def)
  have e: "encode 0 (js ''a b'') = Inr (js ''a%20b'')"
    by (simp add: encode_def n1 encodeRFC3986_a_b)
  have d: "decode_of_encode 0 0 (js ''a b'') = Inr (js ''a20b'')"
    using decodeURIComponent_normalize_text [of 0 "js ''a%20b''"]
    by (simp add: decode_of_encode_def e decode_def n2)
  have "\<forall>c \<in> set (js ''a.''). unreserved c"
    by (simp add: js_def unreserved_def)
  then have e2: "encode 0 (js ''.a.'') = Inr (js ''a.'')"
    by (simp add: encode_def n3 encodeRFC3986URIComponent_id)
  have d2: "decode_of_encode 0 0 (js ''.a.'') = Inr (js ''a'')"
    using decodeURIComponent_normalize_text [of 0 "js ''a.''"]
    by (simp add: decode_of_encode_def e2 decode_def n4)
  have f: "list_all (\<lambda>c. \<not> forbidden c) (js ''a b'')" "list_all (\<lambda>c. \<not> forbidden c) (js ''.a.'')"
    by (simp_all add: js_def forbidden_def)
  show ?thesis
    using n1 n3 e d d2 f by (simp add: js_def)
qed

section \<open>Properties of the service\<close>

lemma constructor_params_bool: "constructor params_bool None = Inr service_bool"
  by (simp add: constructor_def params_bool_def service_bool_def falsy_str_def or_default_def logout_def js_def)

lemma debug_fields [simp]:
  "fetched (debug path message st) = fetched st"
  "msAccessToken (debug path message st) = msAccessToken st"
  "msRefreshToken (debug path message st) = msRefreshToken st"
  "msClientId (debug path message st) = msClientId st"
  "msClientSecret (debug path message st) = msClientSecret st"
  "isDebug (debug path message st) = isDebug st"
  "shouldLogToken (debug path message st) = shouldLogToken st"
  "sharepointFolder (debug path message st) = sharepointFolder st"
  by (simp_all add: debug_def)

lemma debug_off [simp]: "\<not> truthy (isDebug st) \<Longrightarrow> debug path message st = st"
  by (simp add: debug_def)

text \<open>
  C10: token logging is enabled only when the \<^verbatim>\<open>logToken\<close> parameter is exactly the
  string \<^verbatim>\<open>'true'\<close>; the boolean \<^verbatim>\<open>true\<close> leaves it disabled; and for every construction
  with another value, \<^verbatim>\<open>#setAuthorizationTokens\<close> writes nothing to the console (and
  keeps the flag), in any state of the instance.
\<close>

theorem token_logging_flag:
  assumes "constructor p env_debug = Inr st"
  shows "(shouldLogToken st \<longleftrightarrow> p_logToken p = JStr (js ''true''))
         \<and> (p_logToken p = JBool True \<longrightarrow> \<not> shouldLogToken st)
         \<and> (p_logToken p \<noteq> JStr (js ''true'') \<longrightarrow>
              (\<forall>authorization st1 st2.
                  shouldLogToken st1 = shouldLogToken st
                  \<longrightarrow> setAuthorizationTokens authorization st1 = Inr st2
                  \<longrightarrow> console st2 = console st1 \<and> shouldLogToken st2 = shouldLogToken st1))"
proof -
  from assms have f: "shouldLogToken st \<longleftrightarrow> p_logToken p = JStr (js ''true'')"
    by (auto simp: constructor_def logout_def split: if_splits)
  have "console st2 = console st1 \<and> shouldLogToken st2 = shouldLogToken st1"
    if "\<not> shouldLogToken st1" and "setAuthorizationTokens authorization st1 = Inr st2"
    for authorization st1 st2
    using that by (auto simp: setAuthorizationTokens_def split: sum.splits)
  with f show ?thesis by (auto simp: js_def)
qed

theorem token_logging_flag_witness:
  "constructor params_bool None = Inr service_bool
   \<and> p_logToken params_bool = JBool True
   \<and> \<not> shouldLogToken service_bool
   \<and> setAuthorizationTokens tokens_new service_bool
       = Inr (service_bool\<lparr>msAccessToken := JStr (js ''new''), msRefreshToken := JStr (js ''r2'')\<rparr>)
   \<and> console (service_bool\<lparr>msAccessToken := JStr (js ''new''), msRefreshToken := JStr (js ''r2'')\<rparr>)
       = console service_bool"
proof -
  have s: "setAuthorizationTokens tokens_new service_bool
       = Inr (service_bool\<lparr>msAccessToken := JStr (js ''new''), msRefreshToken := JStr (js ''r2'')\<rparr>)"
    by (simp add: setAuthorizationTokens_def tokens_new_def service_bool_def js_def)
  have l: "p_logToken params_bool = JBool True"
    by (simp add: params_bool_def)
  show ?thesis
    using token_logging_flag [OF constructor_params_bool] s l constructor_params_bool
    by simp
qed

lemma requestGraphApi_loop_ignorable:
  assumes "retry \<le> MAX_RETRIES"
    and "renewTokenWithNeeded env (msGraphUrl @ rq_url rq) (rq_method rq) (rq_body rq)
           (rq_headers rq) st = (Inr payload, st1)"
    and "get_prop payload (js ''error'') = Inr err" and "truthy err"
    and "get_prop err (js ''message'') = Inr m" and "test_io_error m = Inr True"
  shows "requestGraphApi_loop env rq retry response st =
           (Inr JNull,
            (debug (js ''RequestGraphApi'') (LVal payload) st1)
              \<lparr>console := console (debug (js ''RequestGraphApi'') (LVal payload) st1) @
                 [ConsoleError [LStr (js ''#requestGraphApi: ''), LStr (rq_url rq), LVal payload]]\<rparr>)"
  using assms
  by (subst requestGraphApi_loop.simps) (simp add: requestGraphApi_try_def Let_def)

text \<open>
  C6: whenever an attempt obtains a payload with an application-level error whose message
  matches \<^verbatim>\<open>IO error during request payload read\<close>, the request returns \<^verbatim>\<open>null\<close>
  instead of throwing, at once: no retry is consumed and no further request is issued. This
  holds in every pass of the loop, and so for the request as a whole when it is the
  first.
\<close>

theorem ignorable_io_error_returns_null:
  assumes "retry \<le> MAX_RETRIES"
    and "renewTokenWithNeeded env (msGraphUrl @ rq_url rq) (rq_method rq) (rq_body rq)
           (rq_headers rq) st = (Inr payload, st1)"
    and "get_prop payload (js ''error'') = Inr err" and "truthy err"
    and "get_prop err (js ''message'') = Inr m" and "test_io_error m = Inr True"
  shows "fst (requestGraphApi_loop env rq retry response st) = Inr JNull
         \<and> fetched (snd (requestGraphApi_loop env rq retry response st)) = fetched st1
         \<and> fst (requestGraphApi env rq st) = Inr JNull
         \<and> fetched (snd (requestGraphApi env rq st)) = fetched st1"
proof -
  have "1 \<le> MAX_RETRIES" by (simp add: MAX_RETRIES_def)
  from requestGraphApi_loop_ignorable [OF assms, of response]
    requestGraphApi_loop_ignorable [OF this assms(2-), of JNull]
  show ?thesis
    by (simp add: requestGraphApi_def)
qed

theorem ignorable_io_error_returns_null_witness:
  "renewTokenWithNeeded env_io (msGraphUrl @ rq_url rq_me) (rq_method rq_me) (rq_body rq_me)
      (rq_headers rq_me) service_bool
     = (Inr io_payload, service_bool\<lparr>fetched := [graphRequest rq_me (js ''old'')]\<rparr>)
   \<and> test_io_error (JStr (js ''IO error during request payload read.'')) = Inr True
   \<and> fst (requestGraphApi env_io rq_me service_bool) = Inr JNull
   \<and> fetched (snd (requestGraphApi env_io rq_me service_bool)) = [graphRequest rq_me (js ''old'')]
   \<and> fst (requestGraphApi env_io_late rq_me service_bool) = Inr JNull
   \<and> length (fetched (snd (requestGraphApi env_io_late rq_me service_bool))) = 2"
proof -
  have r: "renewTokenWithNeeded env_io (msGraphUrl @ rq_url rq_me) (rq_method rq_me)
      (rq_body rq_me) (rq_headers rq_me) service_bool
     = (Inr io_payload, service_bool\<lparr>fetched := [graphRequest rq_me (js ''old'')]\<rparr>)"
    by (simp add: renewTokenWithNeeded_def renewTokenWithNeeded_finish_def internalRequest_def
        fetch_def graphRequest_def env_io_def service_bool_def debug_def Let_def)
  have p: "get_prop io_payload (js ''error'')
             = Inr (JObj [(js ''code'', JStr (js ''generalException'')),
                          (js ''message'', JStr (js ''IO error during request payload read.''))])"
    by (simp add: io_payload_def)
  have m: "get_prop (JObj [(js ''code'', JStr (js ''generalException'')),
                          (js ''message'', JStr (js ''IO error during request payload read.''))])
             (js ''message'') = Inr (JStr (js ''IO error during request payload read.''))"
    by (simp add: js_def)
  have t: "test_io_error (JStr (js ''IO error during request payload read.'')) = Inr True"
    by (simp add: test_io_error_def js_def)
  have le: "1 \<le> MAX_RETRIES" by (simp add: MAX_RETRIES_def)
  have late: "fst (requestGraphApi env_io_late rq_me service_bool) = Inr JNull
      \<and> length (fetched (snd (requestGraphApi env_io_late rq_me service_bool))) = 2"
    by (simp add: requestGraphApi_def requestGraphApi_try_def requestGraphApi_end_def
        renewTokenWithNeeded_def renewTokenWithNeeded_finish_def renewTokenWithNeeded_catch_def
        internalRequest_def fetch_def debug_def apiRequest_def test_io_error_def MAX_RETRIES_def
        requestGraphApi_loop.simps env_io_late_def io_payload_def rq_me_def service_bool_def
        js_def Let_def)
  show ?thesis
    using ignorable_io_error_returns_null [OF le r p _ m t, of JNull] r t late by simp
qed

lemma fetch_fields [simp]:
  "fst (fetch env req st) = net env (length (fetched st)) req"
  "fetched (snd (fetch env req st)) = fetched st @ [req]"
  "msAccessToken (snd (fetch env req st)) = msAccessToken st"
  "msRefreshToken (snd (fetch env req st)) = msRefreshToken st"
  by (simp_all add: fetch_def)

lemma failed_attempt_throws:
  assumes "to_string (msAccessToken st) = Inr tok"
    and "failed_attempt (net env (length (fetched st)) (graphRequest rq tok))"
  shows "\<exists>e resp st1. requestGraphApi_try env rq response st = (Throw e, resp, st1)
           \<and> fetched st1 = fetched st @ [graphRequest rq tok]
           \<and> msAccessToken st1 = msAccessToken st"
proof (cases "net env (length (fetched st)) (graphRequest rq tok)")
  case (Inl e)
  then show ?thesis
    using assms(1)
    by (simp add: requestGraphApi_try_def renewTokenWithNeeded_def internalRequest_def
        renewTokenWithNeeded_catch_def graphRequest_def fetch_def)
next
  case (Inr r)
  with assms(2) have s: "r_status r \<noteq> 401"
    by (simp add: failed_attempt_def)
  have renew: "renewTokenWithNeeded env (msGraphUrl @ rq_url rq) (rq_method rq) (rq_body rq)
           (rq_headers rq) st
         = (r_json r, debug (js ''RenewTokenWithNeeded'') (getResponseLog r)
                       (st\<lparr>fetched := fetched st @ [graphRequest rq tok]\<rparr>))"
    using assms(1) Inr s
    by (simp add: renewTokenWithNeeded_def internalRequest_def renewTokenWithNeeded_finish_def
        graphRequest_def fetch_def Let_def)
  show ?thesis
  proof (cases "r_json r")
    case (Inl e)
    then show ?thesis using renew by (simp add: requestGraphApi_try_def)
  next
    case payload: (Inr payload)
    show ?thesis
    proof (cases "get_prop payload (js ''error'')")
      case (Inl e)
      then show ?thesis using renew payload by (simp add: requestGraphApi_try_def Let_def)
    next
      case err: (Inr err)
      with assms(2) Inr payload have t: "truthy err"
        and m: "case get_prop err (js ''message'') of Inl e \<Rightarrow> True
                | Inr m \<Rightarrow> test_io_error m \<noteq> Inr True"
        by (simp_all add: failed_attempt_def)
      show ?thesis
      proof (cases "get_prop err (js ''message'')")
        case (Inl e)
        then show ?thesis
          using renew payload err t by (simp add: requestGraphApi_try_def Let_def)
      next
        case msg: (Inr msg)
        with m have "test_io_error msg \<noteq> Inr True" by simp
        then show ?thesis
          using renew payload err t msg
          by (cases "test_io_error msg") (auto simp: requestGraphApi_try_def Let_def)
      qed
    qed
  qed
qed

lemma requestGraphApi_loop_all_fail:
  assumes "to_string (msAccessToken st) = Inr tok"
    and "\<forall>k < MAX_RETRIES + 1 - retry.
           failed_attempt (net env (length (fetched st) + k) (graphRequest rq tok))"
  shows "fst (requestGraphApi_loop env rq retry response st)
           = Inl (BaseError (js ''Max retries error in request ['' @ rq_method rq @ js '']: ''
                             @ rq_url rq) NoCause)
         \<and> fetched (snd (requestGraphApi_loop env rq retry response st))
           = fetched st @ replicate (MAX_RETRIES + 1 - retry) (graphRequest rq tok)"
  using assms
proof (induction "MAX_RETRIES + 1 - retry" arbitrary: retry response st)
  case 0
  then have "\<not> retry \<le> MAX_RETRIES" by simp
  then show ?case
    by (subst (1 2) requestGraphApi_loop.simps) (simp add: requestGraphApi_end_def)
next
  case (Suc n)
  then have le: "retry \<le> MAX_RETRIES" and n: "n = MAX_RETRIES + 1 - (retry + 1)"
    and rest: "MAX_RETRIES + 1 - retry = Suc n"
    by simp_all
  from Suc.prems(2) rest
  have "failed_attempt (net env (length (fetched st)) (graphRequest rq tok))"
    by (metis add.right_neutral zero_less_Suc)
  from failed_attempt_throws [OF Suc.prems(1) this, of response]
  obtain e resp st1 where
    t: "requestGraphApi_try env rq response st = (Throw e, resp, st1)"
    and f: "fetched st1 = fetched st @ [graphRequest rq tok]"
    and a: "msAccessToken st1 = msAccessToken st"
    by blast
  define st2 where
    "st2 = debug (js ''RequestGraphApi'')
             (LObj [(''url'', LStr (rq_url rq)),
                    (''error'', LStr (js ''Retrying '' @ dec retry @ js '' time(s)'')),
                    (''throwed'', LErr e)]) st1"
  have step: "requestGraphApi_loop env rq retry response st
                = requestGraphApi_loop env rq (retry + 1) resp st2"
    using le t by (subst requestGraphApi_loop.simps) (simp add: st2_def)
  have tok2: "to_string (msAccessToken st2) = Inr tok"
    using Suc.prems(1) a by (simp add: st2_def)
  have f2: "fetched st2 = fetched st @ [graphRequest rq tok]"
    using f by (simp add: st2_def)
  have later: "\<forall>k < MAX_RETRIES + 1 - (retry + 1).
           failed_attempt (net env (length (fetched st2) + k) (graphRequest rq tok))"
  proof (intro allI impI)
    fix k
    assume "k < MAX_RETRIES + 1 - (retry + 1)"
    then have "Suc k < MAX_RETRIES + 1 - retry" by simp
    with Suc.prems(2) have "failed_attempt (net env (length (fetched st) + Suc k) (graphRequest rq tok))"
      by blast
    then show "failed_attempt (net env (length (fetched st2) + k) (graphRequest rq tok))"
      by (simp add: f2)
  qed
  from Suc.hyps(1) [OF n tok2 later, of resp]
  show ?case
    unfolding step f2 using rest n by (simp add: replicate_append_same)
qed

text \<open>
  C2: when every attempt fails with a non-auth, non-ignorable error, the request issues
  exactly three requests and then throws the max-retries error, whose message names the
  HTTP verb and the requested path.
\<close>

theorem max_retries_after_three_attempts:
  assumes "to_string (msAccessToken st) = Inr tok"
    and "\<forall>k < 3. failed_attempt (net env (length (fetched st) + k) (graphRequest rq tok))"
  shows "fst (requestGraphApi env rq st)
           = Inl (BaseError (js ''Max retries error in request ['' @ rq_method rq @ js '']: ''
                             @ rq_url rq) NoCause)
         \<and> fetched (snd (requestGraphApi env rq st))
           = fetched st @ [graphRequest rq tok, graphRequest rq tok, graphRequest rq tok]"
proof -
  have "MAX_RETRIES + 1 - 1 = 3" by (simp add: MAX_RETRIES_def)
  with assms(2) have "\<forall>k < MAX_RETRIES + 1 - 1.
      failed_attempt (net env (length (fetched st) + k) (graphRequest rq tok))"
    by simp
  from requestGraphApi_loop_all_fail [OF assms(1) this, of JNull]
  show ?thesis
    by (simp add: requestGraphApi_def MAX_RETRIES_def numeral_3_eq_3)
qed

lemma flaky_fails:
  "failed_attempt (net env_flaky 0 req)" "failed_attempt (net env_flaky 1 req)"
  "failed_attempt (net env_flaky 2 req)"
  by (simp_all add: failed_attempt_def env_flaky_def test_io_error_def js_def)

theorem max_retries_after_three_attempts_witness:
  "to_string (msAccessToken service_bool) = Inr (js ''old'')
   \<and> list_all (\<lambda>k. failed_attempt (net env_flaky k (graphRequest rq_me (js ''old'')))) [0, 1, 2]
   \<and> fst (requestGraphApi env_flaky rq_me service_bool)
       = Inl (BaseError (js ''Max retries error in request [GET]: me'') NoCause)
   \<and> length (fetched (snd (requestGraphApi env_flaky rq_me service_bool))) = 3"
proof -
  have t: "to_string (msAccessToken service_bool) = Inr (js ''old'')"
    by (simp add: service_bool_def)
  have f: "\<forall>k < 3. failed_attempt
             (net env_flaky (length (fetched service_bool) + k) (graphRequest rq_me (js ''old'')))"
  proof (intro allI impI)
    fix k :: nat
    assume "k < 3"
    then have "k = 0 \<or> k = 1 \<or> k = 2" by arith
    then show "failed_attempt
             (net env_flaky (length (fetched service_bool) + k) (graphRequest rq_me (js ''old'')))"
      using flaky_fails by (auto simp: service_bool_def)
  qed
  have m: "rq_method rq_me = js ''GET''" "rq_url rq_me = js ''me''" "fetched service_bool = []"
    by (simp_all add: rq_me_def service_bool_def)
  show ?thesis
    using max_retries_after_three_attempts [OF t f] t flaky_fails
    by (simp add: m) (simp add: js_def)
qed

lemma tokenRequest_state [simp]:
  "tokenRequest (debug path message st) = tokenRequest st"
  "tokenRequest (st\<lparr>fetched := h\<rparr>) = tokenRequest st"
  "tokenRequest (st\<lparr>console := c\<rparr>) = tokenRequest st"
  by (simp_all add: tokenRequest_def fun_eq_iff)






lemma refreshRequest_state [simp]:
  "refreshRequest (st\<lparr>fetched := h\<rparr>) = refreshRequest st"
  by (simp add: refreshRequest_def fun_eq_iff)










lemmas service_defs =
  requestGraphApi_def requestGraphApi_try_def requestGraphApi_end_def renewTokenWithNeeded_def
  renewTokenWithNeeded_finish_def renewTokenWithNeeded_catch_def internalRequest_def
  refreshToken_def requestAuthorizationToken_def requestAuthorizationToken_try_def
  setAuthorizationTokens_def fetch_def debug_def debugResponse_def apiRequest_def tokenRequest_def
  MAX_RETRIES_def msGraphUrl_def msGraphAuthUrl_def



subsection \<open>Uploading a file\<close>

lemma requestGraphApi_try_outcome:
  assumes "requestGraphApi_try env rq response st = (outcome, response1, st1)"
  shows "(case outcome of
            Return v \<Rightarrow> v = JNull
          | Break \<Rightarrow> (\<exists>err. get_prop response1 (js ''error'') = Inr err \<and> \<not> truthy err)
          | Throw e \<Rightarrow> True)"
  using assms
  by (auto simp: requestGraphApi_try_def Let_def split: prod.splits sum.splits if_splits bool.splits)

lemma requestGraphApi_loop_payload:
  "fst (requestGraphApi_loop env rq retry response st) = Inr resp \<Longrightarrow>
   resp = JNull \<or> (\<exists>err. get_prop resp (js ''error'') = Inr err \<and> \<not> truthy err)"
proof (induction env rq retry response st rule: requestGraphApi_loop.induct)
  case (1 env rq retry response st)
  show ?case
  proof (cases "retry \<le> MAX_RETRIES")
    case False
    with "1.prems" show ?thesis
      by (subst (asm) requestGraphApi_loop.simps) (simp add: requestGraphApi_end_def)
  next
    case True
    obtain outcome response1 st1 where
      t: "requestGraphApi_try env rq response st = (outcome, response1, st1)"
      by (cases "requestGraphApi_try env rq response st") auto
    note o = requestGraphApi_try_outcome [OF t]
    show ?thesis
    proof (cases outcome)
      case (Return v)
      with "1.prems" True t o show ?thesis
        by (subst (asm) requestGraphApi_loop.simps) simp
    next
      case Break
      with "1.prems" True t o show ?thesis
        by (subst (asm) requestGraphApi_loop.simps) (auto simp: requestGraphApi_end_def)
    next
      case (Throw e)
      with "1.prems" True t have
        "fst (requestGraphApi_loop env rq (retry + 1) response1
                (debug (js ''RequestGraphApi'')
                   (LObj [(''url'', LStr (rq_url rq)),
                          (''error'', LStr (js ''Retrying '' @ dec retry @ js '' time(s)'')),
                          (''throwed'', LErr e)]) st1)) = Inr resp"
        by (subst (asm) requestGraphApi_loop.simps) simp
      with "1.IH" [OF True t [symmetric] Throw refl] show ?thesis
        by simp
    qed
  qed
qed

lemma uploadFile_result:
  assumes "encode rnd (last (split_slash file)) = Inr encoded"
  shows "uploadFile env rnd attachmentDir folderName file conflict st =
     (case uploadFile_try env (remotePath st folderName encoded) attachmentDir file conflict st of
        (Inr resp, st1) \<Rightarrow> (Inr resp, st1)
      | (Inl error, st1) \<Rightarrow>
          (Inl (BaseError (js ''Cannot upload a new file in '' @ remotePath st folderName encoded)
                  (CausedBy error)),
           debug (js ''UploadFile'')
             (LObj [(''urlFile'', LStr (remotePath st folderName encoded)), (''error'', LErr error)])
             st1))"
  unfolding uploadFile_def remotePath_def Let_def using assms by simp

lemma uploadFile_try_missing:
  "\<not> file_exists env (attachmentDir @ js ''/'' @ file) \<Longrightarrow>
   fst (uploadFile_try env urlFile attachmentDir file conflict st) = Inr JNull
   \<and> fetched (snd (uploadFile_try env urlFile attachmentDir file conflict st)) = fetched st"
  by (simp add: uploadFile_try_def fileExists_def Let_def)

lemma uploadFile_try_unreadable:
  "file_exists env (attachmentDir @ js ''/'' @ file) \<Longrightarrow>
   read_file env (attachmentDir @ js ''/'' @ file) = Inl e \<Longrightarrow>
   fst (uploadFile_try env urlFile attachmentDir file conflict st) = Inl e
   \<and> fetched (snd (uploadFile_try env urlFile attachmentDir file conflict st)) = fetched st"
  by (simp add: uploadFile_try_def fileExists_def Let_def)

lemma uploadFile_try_request:
  assumes "file_exists env (attachmentDir @ js ''/'' @ file)"
    and "read_file env (attachmentDir @ js ''/'' @ file) = Inr content"
  shows "fst (uploadFile_try env urlFile attachmentDir file conflict st)
           = fst (requestGraphPut env urlFile (RawBody content) [] conflict
                    (debug (js ''uploadFile'') (LStr (js ''File exists? true'')) st))
         \<and> fetched (snd (uploadFile_try env urlFile attachmentDir file conflict st))
           = fetched (snd (requestGraphPut env urlFile (RawBody content) [] conflict
                    (debug (js ''uploadFile'') (LStr (js ''File exists? true'')) st)))"
proof -
  let ?st1 = "debug (js ''uploadFile'') (LStr (js ''File exists? true'')) st"
  let ?put = "requestGraphPut env urlFile (RawBody content) [] conflict ?st1"
  have s: "js ''File exists? '' @ js ''true'' = js ''File exists? true''"
    by (simp add: js_def)
  obtain res st2 where p: "?put = (res, st2)"
    by (cases ?put) auto
  show ?thesis
  proof (cases res)
    case (Inl e)
    with assms p show ?thesis
      by (simp add: uploadFile_try_def fileExists_def Let_def s)
  next
    case (Inr resp)
    with p have "fst (requestGraphApi_loop env
        \<lparr> rq_url = urlFile, rq_method = js ''PUT'', rq_body = RawBody content, rq_headers = [],
          rq_conflict = conflict \<rparr> 1 JNull ?st1) = Inr resp"
      by (simp add: requestGraphPut_def requestGraphApi_def)
    from requestGraphApi_loop_payload [OF this]
    have "resp = JNull \<or> (\<exists>err. get_prop resp (js ''error'') = Inr err \<and> \<not> truthy err)" .
    with assms p Inr show ?thesis
      by (auto simp: uploadFile_try_def fileExists_def Let_def s)
  qed
qed

text \<open>
  C7 (amended): when the remote path can be built (percent-encoding of the normalized file
  name succeeds), \<^verbatim>\<open>uploadFile\<close> returns \<^verbatim>\<open>null\<close> without issuing a request whenever the
  local file does not exist, and every error it throws is the wrapping error that carries the
  attempted remote path. When the file exists and reading it fails, the read error is thrown
  in this wrapping, as its cause, and no request is issued. When the file is read, exactly
  the \<^verbatim>\<open>PUT\<close> request of its bytes to the remote path is made: its failure is thrown in
  the wrapping, as its cause, and its result is returned as it is.
\<close>

theorem uploadFile_missing_or_wrapped:
  fixes env :: env and rnd :: rat and attachmentDir folderName "file" encoded :: jsstring
    and conflict :: json and st :: service
  defines "upload \<equiv> uploadFile env rnd attachmentDir folderName file conflict st"
    and "put content \<equiv> requestGraphPut env (remotePath st folderName encoded) (RawBody content) []
           conflict (debug (js ''uploadFile'') (LStr (js ''File exists? true'')) st)"
  assumes enc: "encode rnd (last (split_slash file)) = Inr encoded"
  shows "(\<not> file_exists env (attachmentDir @ js ''/'' @ file) \<longrightarrow>
            fst upload = Inr JNull \<and> fetched (snd upload) = fetched st)
         \<and> (case fst upload of
               Inr resp \<Rightarrow> True
             | Inl e \<Rightarrow> upload_error (remotePath st folderName encoded) e)
         \<and> (file_exists env (attachmentDir @ js ''/'' @ file) \<longrightarrow>
              (case read_file env (attachmentDir @ js ''/'' @ file) of
                 Inl e \<Rightarrow>
                   fst upload = Inl (BaseError (js ''Cannot upload a new file in ''
                                                @ remotePath st folderName encoded) (CausedBy e))
                   \<and> fetched (snd upload) = fetched st
               | Inr content \<Rightarrow>
                   fst upload =
                     (case fst (put content) of
                        Inl e \<Rightarrow> Inl (BaseError (js ''Cannot upload a new file in ''
                                                 @ remotePath st folderName encoded) (CausedBy e))
                      | Inr resp \<Rightarrow> Inr resp)
                   \<and> fetched (snd upload) = fetched (snd (put content))))"
proof -
  let ?attempt = "uploadFile_try env (remotePath st folderName encoded) attachmentDir file conflict st"
  have u: "fst upload = (case fst ?attempt of
                Inl e \<Rightarrow> Inl (BaseError (js ''Cannot upload a new file in ''
                                         @ remotePath st folderName encoded) (CausedBy e))
              | Inr resp \<Rightarrow> Inr resp)"
    "fetched (snd upload) = fetched (snd ?attempt)"
    unfolding upload_def uploadFile_result [OF enc]
    by (cases ?attempt; cases "fst ?attempt"; simp)+
  have "fst upload = Inr JNull \<and> fetched (snd upload) = fetched st"
    if "\<not> file_exists env (attachmentDir @ js ''/'' @ file)"
    using uploadFile_try_missing [OF that, of "remotePath st folderName encoded" conflict st]
    by (simp add: u)
  moreover have "case fst upload of
               Inr resp \<Rightarrow> True
             | Inl e \<Rightarrow> upload_error (remotePath st folderName encoded) e"
    by (simp add: u upload_error_def split: sum.splits)
  moreover have "case read_file env (attachmentDir @ js ''/'' @ file) of
                 Inl e \<Rightarrow>
                   fst upload = Inl (BaseError (js ''Cannot upload a new file in ''
                                                @ remotePath st folderName encoded) (CausedBy e))
                   \<and> fetched (snd upload) = fetched st
               | Inr content \<Rightarrow>
                   fst upload =
                     (case fst (put content) of
                        Inl e \<Rightarrow> Inl (BaseError (js ''Cannot upload a new file in ''
                                                 @ remotePath st folderName encoded) (CausedBy e))
                      | Inr resp \<Rightarrow> Inr resp)
                   \<and> fetched (snd upload) = fetched (snd (put content))"
    if x: "file_exists env (attachmentDir @ js ''/'' @ file)"
  proof (cases "read_file env (attachmentDir @ js ''/'' @ file)")
    case (Inl e)
    from uploadFile_try_unreadable [OF x Inl, of "remotePath st folderName encoded" conflict st] Inl
    show ?thesis
      by (simp add: u)
  next
    case (Inr content)
    from uploadFile_try_request [OF x Inr, of "remotePath st folderName encoded" conflict st] Inr
    show ?thesis
      by (simp add: u put_def)
  qed
  ultimately show ?thesis by blast
qed

lemma encode_missing: "encode (1 / 8) (last (split_slash (js ''docs/missing.txt''))) = Inr (js ''missing.txt'')"
proof -
  have l: "last (split_slash (js ''docs/missing.txt'')) = js ''missing.txt''"
    by (simp add: js_def)
  have p: "plain_name (js ''missing.txt'')"
    by (simp add: plain_name_def js_def unreserved_def)
  have "js ''missing.txt'' \<notin> set invalidNames" "\<not> js_includes (js ''missing.txt'') (js ''_vti_'')"
    by (simp_all add: invalidNames_list js_def)
  with p have "normalize_text (1 / 8) (js ''missing.txt'') = js ''missing.txt''"
    by (rule normalize_text_plain)
  moreover from p have "\<forall>c \<in> set (js ''missing.txt''). unreserved c"
    by (simp add: plain_name_def list_all_iff)
  ultimately show ?thesis
    by (simp add: l encode_def encodeRFC3986URIComponent_id)
qed

lemma encode_a_txt: "encode (1 / 8) (last (split_slash (js ''a.txt''))) = Inr (js ''a.txt'')"
proof -
  have l: "last (split_slash (js ''a.txt'')) = js ''a.txt''"
    by (simp add: js_def)
  have p: "plain_name (js ''a.txt'')"
    by (simp add: plain_name_def js_def unreserved_def)
  have "js ''a.txt'' \<notin> set invalidNames" "\<not> js_includes (js ''a.txt'') (js ''_vti_'')"
    by (simp_all add: invalidNames_list js_def)
  with p have "normalize_text (1 / 8) (js ''a.txt'') = js ''a.txt''"
    by (rule normalize_text_plain)
  moreover from p have "\<forall>c \<in> set (js ''a.txt''). unreserved c"
    by (simp add: plain_name_def list_all_iff)
  ultimately show ?thesis
    by (simp add: l encode_def encodeRFC3986URIComponent_id)
qed

lemma remotePath_a_txt:
  "remotePath service_bool (js ''Docs'') (js ''a.txt'') = js ''me/drive/root:/Docs/a.txt:/content''"
  by (simp add: remotePath_def service_bool_def js_def)

lemma put_flaky:
  "fst (requestGraphPut env_flaky (js ''me/drive/root:/Docs/a.txt:/content'')
          (RawBody [0x68, 0x69]) [] JUndefined service_bool)
     = Inl (BaseError (js ''Max retries error in request [PUT]: me/drive/root:/Docs/a.txt:/content'')
              NoCause)
   \<and> length (fetched (snd (requestGraphPut env_flaky (js ''me/drive/root:/Docs/a.txt:/content'')
          (RawBody [0x68, 0x69]) [] JUndefined service_bool))) = 3"
  by (simp add: requestGraphPut_def service_defs requestGraphApi_loop.simps env_flaky_def
      service_bool_def js_def Let_def test_io_error_def)

lemma put_ok:
  "fst (requestGraphPut env_upload_ok (js ''me/drive/root:/Docs/a.txt:/content'')
          (RawBody [0x68, 0x69]) [] JUndefined service_bool)
     = Inr (JObj [(js ''id'', JStr (js ''01AB''))])
   \<and> map fr_method (fetched (snd (requestGraphPut env_upload_ok
          (js ''me/drive/root:/Docs/a.txt:/content'') (RawBody [0x68, 0x69]) [] JUndefined
          service_bool))) = [js ''PUT'']
   \<and> map fr_body (fetched (snd (requestGraphPut env_upload_ok
          (js ''me/drive/root:/Docs/a.txt:/content'') (RawBody [0x68, 0x69]) [] JUndefined
          service_bool))) = [RawBody [0x68, 0x69]]"
  by (simp add: requestGraphPut_def service_defs requestGraphApi_loop.simps env_upload_ok_def
      service_bool_def js_def Let_def spread_headers_def)

theorem uploadFile_missing_or_wrapped_witness:
  "encode (1 / 8) (last (split_slash (js ''docs/missing.txt''))) = Inr (js ''missing.txt'')
   \<and> \<not> file_exists env_flaky (js ''/tmp'' @ js ''/'' @ js ''docs/missing.txt'')
   \<and> fst (uploadFile env_flaky (1 / 8) (js ''/tmp'') (js ''Docs'') (js ''docs/missing.txt'')
             JUndefined service_bool) = Inr JNull
   \<and> fetched (snd (uploadFile env_flaky (1 / 8) (js ''/tmp'') (js ''Docs'')
                      (js ''docs/missing.txt'') JUndefined service_bool)) = []
   \<and> encode (1 / 8) (last (split_slash (js ''a.txt''))) = Inr (js ''a.txt'')
   \<and> file_exists env_unreadable (js ''/tmp'' @ js ''/'' @ js ''a.txt'')
   \<and> read_file env_unreadable (js ''/tmp'' @ js ''/'' @ js ''a.txt'') = Inl (SystemError (js ''EACCES''))
   \<and> fst (uploadFile env_unreadable (1 / 8) (js ''/tmp'') (js ''Docs'') (js ''a.txt'') JUndefined
             service_bool)
     = Inl (BaseError (js ''Cannot upload a new file in me/drive/root:/Docs/a.txt:/content'')
              (CausedBy (SystemError (js ''EACCES''))))
   \<and> fetched (snd (uploadFile env_unreadable (1 / 8) (js ''/tmp'') (js ''Docs'') (js ''a.txt'')
                      JUndefined service_bool)) = []
   \<and> file_exists env_flaky (js ''/tmp'' @ js ''/'' @ js ''a.txt'')
   \<and> read_file env_flaky (js ''/tmp'' @ js ''/'' @ js ''a.txt'') = Inr [0x68, 0x69]
   \<and> fst (uploadFile env_flaky (1 / 8) (js ''/tmp'') (js ''Docs'') (js ''a.txt'') JUndefined
             service_bool)
     = Inl (BaseError (js ''Cannot upload a new file in me/drive/root:/Docs/a.txt:/content'')
              (CausedBy (BaseError
                 (js ''Max retries error in request [PUT]: me/drive/root:/Docs/a.txt:/content'')
                 NoCause)))
   \<and> length (fetched (snd (uploadFile env_flaky (1 / 8) (js ''/tmp'') (js ''Docs'') (js ''a.txt'')
                      JUndefined service_bool))) = 3
   \<and> file_exists env_upload_ok (js ''/tmp'' @ js ''/'' @ js ''a.txt'')
   \<and> read_file env_upload_ok (js ''/tmp'' @ js ''/'' @ js ''a.txt'') = Inr [0x68, 0x69]
   \<and> fst (uploadFile env_upload_ok (1 / 8) (js ''/tmp'') (js ''Docs'') (js ''a.txt'') JUndefined
             service_bool)
     = Inr (JObj [(js ''id'', JStr (js ''01AB''))])
   \<and> map fr_body (fetched (snd (uploadFile env_upload_ok (1 / 8) (js ''/tmp'') (js ''Docs'')
                      (js ''a.txt'') JUndefined service_bool))) = [RawBody [0x68, 0x69]]"
proof -
  have m: "\<not> file_exists env_flaky (js ''/tmp'' @ js ''/'' @ js ''docs/missing.txt'')"
    by (simp add: env_flaky_def js_def)
  have e: "fetched service_bool = []" "\<not> truthy (isDebug service_bool)"
    by (simp_all add: service_bool_def)
  have u: "file_exists env_unreadable (js ''/tmp'' @ js ''/'' @ js ''a.txt'')"
    "read_file env_unreadable (js ''/tmp'' @ js ''/'' @ js ''a.txt'') = Inl (SystemError (js ''EACCES''))"
    by (simp_all add: env_unreadable_def)
  have f: "file_exists env_flaky (js ''/tmp'' @ js ''/'' @ js ''a.txt'')"
    "read_file env_flaky (js ''/tmp'' @ js ''/'' @ js ''a.txt'') = Inr [0x68, 0x69]"
    by (simp_all add: env_flaky_def js_def)
  have k: "file_exists env_upload_ok (js ''/tmp'' @ js ''/'' @ js ''a.txt'')"
    "read_file env_upload_ok (js ''/tmp'' @ js ''/'' @ js ''a.txt'') = Inr [0x68, 0x69]"
    by (simp_all add: env_upload_ok_def js_def)
  have 1: "fst (uploadFile env_flaky (1 / 8) (js ''/tmp'') (js ''Docs'') (js ''docs/missing.txt'')
             JUndefined service_bool) = Inr JNull
     \<and> fetched (snd (uploadFile env_flaky (1 / 8) (js ''/tmp'') (js ''Docs'')
                      (js ''docs/missing.txt'') JUndefined service_bool)) = []"
    using uploadFile_missing_or_wrapped [where env = env_flaky and attachmentDir = "js ''/tmp''"
        and folderName = "js ''Docs''" and conflict = JUndefined and st = service_bool, OF encode_missing] m
    by (simp add: e)
  have 2: "fst (uploadFile env_unreadable (1 / 8) (js ''/tmp'') (js ''Docs'') (js ''a.txt'') JUndefined
             service_bool)
     = Inl (BaseError (js ''Cannot upload a new file in me/drive/root:/Docs/a.txt:/content'')
              (CausedBy (SystemError (js ''EACCES''))))
     \<and> fetched (snd (uploadFile env_unreadable (1 / 8) (js ''/tmp'') (js ''Docs'') (js ''a.txt'')
                      JUndefined service_bool)) = []"
    using uploadFile_missing_or_wrapped [where env = env_unreadable and attachmentDir = "js ''/tmp''"
        and folderName = "js ''Docs''" and conflict = JUndefined and st = service_bool, OF encode_a_txt] u
    unfolding remotePath_a_txt
    by (simp add: e) (simp add: js_def)
  have 3: "fst (uploadFile env_flaky (1 / 8) (js ''/tmp'') (js ''Docs'') (js ''a.txt'') JUndefined
             service_bool)
     = Inl (BaseError (js ''Cannot upload a new file in me/drive/root:/Docs/a.txt:/content'')
              (CausedBy (BaseError
                 (js ''Max retries error in request [PUT]: me/drive/root:/Docs/a.txt:/content'')
                 NoCause)))
     \<and> length (fetched (snd (uploadFile env_flaky (1 / 8) (js ''/tmp'') (js ''Docs'') (js ''a.txt'')
                      JUndefined service_bool))) = 3"
    using uploadFile_missing_or_wrapped [where env = env_flaky and attachmentDir = "js ''/tmp''"
        and folderName = "js ''Docs''" and conflict = JUndefined and st = service_bool, OF encode_a_txt] f put_flaky
    unfolding remotePath_a_txt
    by (simp add: e) (simp add: js_def)
  have 4: "fst (uploadFile env_upload_ok (1 / 8) (js ''/tmp'') (js ''Docs'') (js ''a.txt'') JUndefined
             service_bool)
     = Inr (JObj [(js ''id'', JStr (js ''01AB''))])
     \<and> map fr_body (fetched (snd (uploadFile env_upload_ok (1 / 8) (js ''/tmp'') (js ''Docs'')
                      (js ''a.txt'') JUndefined service_bool))) = [RawBody [0x68, 0x69]]"
    using uploadFile_missing_or_wrapped [where env = env_upload_ok and attachmentDir = "js ''/tmp''"
        and folderName = "js ''Docs''" and conflict = JUndefined and st = service_bool, OF encode_a_txt] k put_ok
    unfolding remotePath_a_txt
    by (simp add: e)
  from 1 2 3 4 m u f k encode_missing encode_a_txt show ?thesis
    by blast
qed

lemma normalizedTxt_surrogate: "normalizedTxt [0xD800] = [0xD800]"
proof -
  have "removeLinks [0xD800] = [0xD800]"
    by (rule removeLinks_id) simp
  then show ?thesis
    unfolding normalizedTxt_def
    by (simp add: js_def remove_all_def forbidden_def replace_all_def strip_leading_tilde_def
        strip_edge_period_def trim_def is_space_def)
qed

lemma encode_surrogate: "encode 0 [0xD800] = Inl URIError"
proof -
  have "normalize_text 0 [0xD800] = [0xD800]"
    unfolding normalize_text_def normalizedTxt_surrogate replaceOutlookInvalidNames_def
      invalidNames_list
    by (simp add: js_def)
  then show ?thesis
    by (simp add: encode_def encodeRFC3986URIComponent_def uri_unescaped_def low_surrogate_def
        high_surrogate_def)
qed

text \<open>
  C7 as stated fails for a file name with an unpaired surrogate: the remote path is built
  before the \<^verbatim>\<open>try\<close> block and before the existence check, and \<^verbatim>\<open>encodeURIComponent\<close>
  throws a URIError, which reaches the caller as it is, although the file does not exist.
\<close>

theorem uploadFile_counterexample:
  "\<not> file_exists env_flaky (js ''/tmp'' @ js ''/'' @ [0xD800])
   \<and> fst (uploadFile env_flaky 0 (js ''/tmp'') (js ''Docs'') [0xD800] JUndefined service_bool)
       = Inl URIError"
  by (simp add: uploadFile_def encode_surrogate) (simp add: env_flaky_def js_def)

end
